theory Spec2Isabelle
  imports Complex_Main "HOL-Library.Signed_Division"
begin

section \<open>The meeting scheduler of cweb.c\<close>

text \<open>
  A shallow embedding of the scheduling core of \<^verbatim>\<open>cweb.c\<close>: the slot calendar,
  \<^verbatim>\<open>reserve_slot\<close>, \<^verbatim>\<open>is_valid_slot\<close> and \<^verbatim>\<open>add_meeting\<close>. The repository
  holds an older copy of the program as well (\<^verbatim>\<open>scheduler_web.c\<close>); its helper
  functions, \<^verbatim>\<open>reserve_slot\<close> and \<^verbatim>\<open>is_valid_slot\<close> are the same, and its
  \<^verbatim>\<open>add_meeting\<close> lacks the fortnight pairs that \<^verbatim>\<open>cweb.c\<close> introduces. The
  embedding follows \<^verbatim>\<open>cweb.c\<close>.

  C \<^verbatim>\<open>int\<close> values are modelled as \<open>int\<close> (every index and count stays far from the
  32-bit bounds), with C's truncating \<^verbatim>\<open>/\<close> and \<^verbatim>\<open>%\<close> as \<open>sdiv\<close> and \<open>smod\<close>.
  The \<^verbatim>\<open>double\<close> values of the program are hours: sums of multiples of one half,
  which binary floating point represents and adds exactly, so they are modelled as
  rationals. A C string is a \<open>string\<close>, and \<^verbatim>\<open>strcmp(a, b) == 0\<close> is equality.
  A fixed array indexed by \<^verbatim>\<open>int\<close> is a function from the index; the two arrays
  that grow with a counter (\<^verbatim>\<open>schedule\<close>, \<^verbatim>\<open>reservations\<close>) are lists whose length
  is the counter, and a write past their fixed capacity, which is undefined in C, is the
  outcome \<open>OutOfBounds\<close>.
\<close>

subsection \<open>Constants\<close>

definition MAX_DAYS :: int where "MAX_DAYS = 4"
definition MAX_WEEKS :: int where "MAX_WEEKS = 4"
definition MAX_SLOTS :: int where "MAX_SLOTS = 14"
definition MAX_MEETINGS :: int where "MAX_MEETINGS = 100"
definition MAX_RESERVATIONS :: int where "MAX_RESERVATIONS = 50"

definition DAYS :: "string list" where
  "DAYS = [''Monday'', ''Tuesday'', ''Wednesday'', ''Thursday'']"

definition TIME_SLOTS :: "string list" where
  "TIME_SLOTS =
     [''09:00'', ''09:30'', ''10:00'', ''10:30'', ''11:00'', ''11:30'',
      ''13:00'', ''13:30'', ''14:00'', ''14:30'', ''15:00'', ''15:30'',
      ''16:00'', ''16:30'']"

definition BREAK_SLOTS :: "string list" where
  "BREAK_SLOTS = [''12:00'', ''12:30'']"

subsection \<open>Data\<close>

record Meeting =
  m_name :: string
  m_type :: string
  m_duration :: int
  preferred_hours :: "int \<Rightarrow> int"
  fixed_day :: string
  fixed_time :: string
  m_frequency :: string

record Reservation =
  r_day :: string
  r_start_time :: string
  r_duration :: int

record ScheduleEntry =
  e_week :: int
  e_day :: int
  e_start_time :: int
  e_name :: string
  e_type :: string
  e_duration :: int
  e_frequency :: string

record MeetingScheduler =
  schedule :: "ScheduleEntry list"
  reservations :: "Reservation list"
  total_hours :: "int \<Rightarrow> rat"
  meeting_hours :: "int \<Rightarrow> rat"
  blocked_slots :: "int \<Rightarrow> int \<Rightarrow> int \<Rightarrow> bool"

definition schedule_count :: "MeetingScheduler \<Rightarrow> int" where
  "schedule_count s = int (length (schedule s))"

definition reservation_count :: "MeetingScheduler \<Rightarrow> int" where
  "reservation_count s = int (length (reservations s))"

text \<open>What a call does: it returns a truth value and leaves a scheduler, or it writes
  past the end of one of the two growing arrays.\<close>

datatype outcome = Returns bool MeetingScheduler | OutOfBounds

subsection \<open>Helper functions\<close>

text \<open>The loop of \<^verbatim>\<open>find_slot_index\<close> and \<^verbatim>\<open>find_day_index\<close>: the index of the
  first entry equal to the label, from index \<open>i\<close> on, or \<open>-1\<close>.\<close>

fun find_from :: "string list \<Rightarrow> string \<Rightarrow> int \<Rightarrow> int" where
  "find_from [] x i = -1"
| "find_from (y # ys) x i = (if y = x then i else find_from ys x (i + 1))"

definition find_slot_index :: "string \<Rightarrow> int" where
  "find_slot_index time = find_from TIME_SLOTS time 0"

definition find_day_index :: "string \<Rightarrow> int" where
  "find_day_index day = find_from DAYS day 0"

definition is_break_slot :: "string \<Rightarrow> bool" where
  "is_break_slot time = (time = BREAK_SLOTS ! 0 \<or> time = BREAK_SLOTS ! 1)"

definition slot_to_hour :: "int \<Rightarrow> rat" where
  "slot_to_hour slot_idx =
     (let hour = slot_idx sdiv 2 + 9;
          minute = (slot_idx smod 2) * 30;
          hour = (if slot_idx \<ge> 6 then hour + 1 else hour)
      in of_int hour + of_int minute / 60)"

text \<open>The label of a slot index that is known to be in range.\<close>

definition slot_label :: "int \<Rightarrow> string" where
  "slot_label slot_idx = TIME_SLOTS ! nat slot_idx"

subsection \<open>Scheduler functions\<close>

definition init_scheduler :: MeetingScheduler where
  "init_scheduler =
     \<lparr>schedule = [], reservations = [], total_hours = (\<lambda>_. 0),
      meeting_hours = (\<lambda>_. 0), blocked_slots = (\<lambda>_ _ _. False)\<rparr>"

text \<open>The grid after \<^verbatim>\<open>blocked_slots[week][day][slot] = true\<close>.\<close>

definition book :: "(int \<Rightarrow> int \<Rightarrow> int \<Rightarrow> bool) \<Rightarrow> int \<Rightarrow> int \<Rightarrow> int \<Rightarrow> (int \<Rightarrow> int \<Rightarrow> int \<Rightarrow> bool)" where
  "book g week day slot =
     (\<lambda>w d k. if w = week \<and> d = day \<and> k = slot then True else g w d k)"

text \<open>The first loop of \<^verbatim>\<open>reserve_slot\<close>: no covered slot is past the last index or a
  break label.\<close>

fun slots_in_range :: "int \<Rightarrow> int list \<Rightarrow> bool" where
  "slots_in_range start_idx [] = True"
| "slots_in_range start_idx (i # is) =
     (let slot_idx = start_idx + i in
      if slot_idx \<ge> MAX_SLOTS \<or> is_break_slot (slot_label slot_idx) then False
      else slots_in_range start_idx is)"

text \<open>The second, nested loop of \<^verbatim>\<open>reserve_slot\<close>. The inner loop tests a cell and
  books it at once; an occupied cell ends both loops with \<^verbatim>\<open>return false\<close>, and the
  grid keeps the cells booked so far. The truth value tells whether the loop ran to its
  end.\<close>

fun reserve_week ::
  "(int \<Rightarrow> int \<Rightarrow> int \<Rightarrow> bool) \<Rightarrow> int \<Rightarrow> int \<Rightarrow> int \<Rightarrow> int list \<Rightarrow>
   bool \<times> (int \<Rightarrow> int \<Rightarrow> int \<Rightarrow> bool)" where
  "reserve_week g week day_idx start_idx [] = (True, g)"
| "reserve_week g week day_idx start_idx (i # is) =
     (let slot_idx = start_idx + i in
      if g week day_idx slot_idx then (False, g)
      else reserve_week (book g week day_idx slot_idx) week day_idx start_idx is)"

fun reserve_weeks ::
  "(int \<Rightarrow> int \<Rightarrow> int \<Rightarrow> bool) \<Rightarrow> int list \<Rightarrow> int \<Rightarrow> int \<Rightarrow> int list \<Rightarrow>
   bool \<times> (int \<Rightarrow> int \<Rightarrow> int \<Rightarrow> bool)" where
  "reserve_weeks g [] day_idx start_idx is = (True, g)"
| "reserve_weeks g (week # weeks) day_idx start_idx is =
     (case reserve_week g week day_idx start_idx is of
        (False, g') \<Rightarrow> (False, g')
      | (True, g') \<Rightarrow> reserve_weeks g' weeks day_idx start_idx is)"

definition reserve_slot :: "MeetingScheduler \<Rightarrow> string \<Rightarrow> string \<Rightarrow> int \<Rightarrow> outcome" where
  "reserve_slot scheduler day start_time duration_minutes =
     (let day_idx = find_day_index day;
          start_idx = find_slot_index start_time
      in
      if day_idx = -1 \<or> start_idx = -1 \<or> duration_minutes smod 30 \<noteq> 0
         \<or> duration_minutes < 30 \<or> duration_minutes > 90
      then Returns False scheduler
      else
        let duration_slots = duration_minutes sdiv 30;
            start_hour = slot_to_hour start_idx;
            end_hour = start_hour + of_int duration_slots * (1/2)
        in
        if end_hour > 17 \<or> is_break_slot start_time then Returns False scheduler
        else if \<not> slots_in_range start_idx [0 .. duration_slots - 1]
        then Returns False scheduler
        else
          (case reserve_weeks (blocked_slots scheduler) [0 .. MAX_WEEKS - 1]
                  day_idx start_idx [0 .. duration_slots - 1] of
             (False, g) \<Rightarrow> Returns False (scheduler\<lparr>blocked_slots := g\<rparr>)
           | (True, g) \<Rightarrow>
               if reservation_count scheduler \<ge> MAX_RESERVATIONS then OutOfBounds
               else Returns True
                 (scheduler\<lparr>
                    blocked_slots := g,
                    reservations := reservations scheduler @
                      [\<lparr>r_day = day, r_start_time = start_time, r_duration = duration_slots\<rparr>],
                    total_hours := (total_hours scheduler)
                      (day_idx := total_hours scheduler day_idx
                         + of_int duration_slots * (1/2) * of_int MAX_WEEKS)\<rparr>)))"

definition is_valid_slot :: "MeetingScheduler \<Rightarrow> int \<Rightarrow> int \<Rightarrow> int \<Rightarrow> int \<Rightarrow> bool" where
  "is_valid_slot scheduler week day_idx start_idx duration_slots =
     (if start_idx < 0 \<or> start_idx \<ge> MAX_SLOTS \<or> is_break_slot (slot_label start_idx)
      then False
      else
        let start_hour = slot_to_hour start_idx;
            end_hour = start_hour + of_int duration_slots * (1/2)
        in
        if end_hour > 17 then False
        else list_all
          (\<lambda>i. let slot_idx = start_idx + i in
                \<not> (slot_idx \<ge> MAX_SLOTS \<or> is_break_slot (slot_label slot_idx)
                   \<or> blocked_slots scheduler week day_idx slot_idx))
          [0 .. duration_slots - 1])"


subsection \<open>Placing a meeting: the search\<close>

definition occurrences_of :: "string \<Rightarrow> int" where
  "occurrences_of frequency =
     (if frequency = ''weekly'' then 4
      else if frequency = ''fortnightly'' then 2
      else if frequency = ''third_week'' then 1 else 1)"

definition fixed_day_idx :: "Meeting \<Rightarrow> int" where
  "fixed_day_idx meeting =
     (if fixed_day meeting \<noteq> [] then find_day_index (fixed_day meeting) else -1)"

definition fixed_time_idx :: "Meeting \<Rightarrow> int" where
  "fixed_time_idx meeting =
     (if fixed_time meeting \<noteq> [] then find_slot_index (fixed_time meeting) else -1)"

text \<open>The bubble sort of \<^verbatim>\<open>day_order\<close>: pass \<open>i\<close> compares the neighbours at
  \<open>j\<close> and \<open>j + 1\<close> for \<open>j < MAX_DAYS - i - 1\<close> and swaps them when the left day has
  strictly more total hours.\<close>

definition bubble_step :: "(int \<Rightarrow> rat) \<Rightarrow> nat \<Rightarrow> int list \<Rightarrow> int list" where
  "bubble_step hours j day_order =
     (if hours (day_order ! j) > hours (day_order ! (j + 1))
      then day_order[j := day_order ! (j + 1), j + 1 := day_order ! j]
      else day_order)"

definition sort_days :: "(int \<Rightarrow> rat) \<Rightarrow> int list" where
  "sort_days hours =
     fold (\<lambda>i day_order. fold (bubble_step hours) [0 ..< nat MAX_DAYS - i - 1] day_order)
       [0 ..< nat MAX_DAYS - 1] [0, 1, 2, 3]"

definition fortnight_pairs :: "(int \<times> int) list" where
  "fortnight_pairs = [(0, 2), (1, 3)]"

text \<open>The \<^verbatim>\<open>while\<close> loop that counts the preferred times: it stops at the first
  negative entry or at 8. (With eight non-negative entries the C loop reads one element
  past the array before the bound stops it; the value read does not matter.)\<close>

function pref_end :: "(int \<Rightarrow> int) \<Rightarrow> int \<Rightarrow> int" where
  "pref_end hours time_end =
     (if hours time_end \<ge> 0 \<and> time_end < 8 then pref_end hours (time_end + 1)
      else time_end)"
  by pat_completeness auto
termination
  by (relation "measure (\<lambda>(hours, time_end). nat (8 - time_end))") auto

declare pref_end.simps [simp del]

text \<open>The loop over the weeks of the non-fortnightly search: it skips assigned weeks,
  counts the valid ones, adds up their projected hours and breaks once the count
  reaches the number of occurrences.\<close>

fun count_weeks ::
  "MeetingScheduler \<Rightarrow> (int \<Rightarrow> bool) \<Rightarrow> int \<Rightarrow> int \<Rightarrow> int \<Rightarrow> int \<Rightarrow> int list \<Rightarrow>
   int \<times> rat \<Rightarrow> int \<times> rat" where
  "count_weeks s assigned_weeks day_idx time_idx duration_slots occurrences [] acc = acc"
| "count_weeks s assigned_weeks day_idx time_idx duration_slots occurrences (w # ws)
     (valid_weeks, avg_hours) =
     (if assigned_weeks w
      then count_weeks s assigned_weeks day_idx time_idx duration_slots occurrences ws
             (valid_weeks, avg_hours)
      else
        let (valid_weeks, avg_hours) =
              (if is_valid_slot s w day_idx time_idx duration_slots
               then (valid_weeks + 1,
                     avg_hours + (total_hours s day_idx + of_int duration_slots * (1/2)))
               else (valid_weeks, avg_hours))
        in
        if valid_weeks \<ge> occurrences then (valid_weeks, avg_hours)
        else count_weeks s assigned_weeks day_idx time_idx duration_slots occurrences ws
               (valid_weeks, avg_hours))"

text \<open>The state of the search: \<^verbatim>\<open>min_hours\<close>, \<^verbatim>\<open>chosen_day\<close>, \<^verbatim>\<open>chosen_time\<close>.\<close>

type_synonym best = "rat \<times> int \<times> int"

text \<open>The time that the loop over \<open>t\<close> picks: fixed, preferred, or sequential.\<close>

definition time_idx_of :: "Meeting \<Rightarrow> int \<Rightarrow> int" where
  "time_idx_of meeting t =
     (if fixed_time_idx meeting \<ge> 0 then fixed_time_idx meeting
      else if preferred_hours meeting 0 \<ge> 0 then preferred_hours meeting t else t)"

text \<open>The body of the loop over \<open>t\<close>.\<close>

definition try_time :: "MeetingScheduler \<Rightarrow> Meeting \<Rightarrow> int \<Rightarrow> int \<Rightarrow> int \<Rightarrow> best \<Rightarrow> best" where
  "try_time s meeting p day_idx t best =
     (case best of (min_hours, chosen_day, chosen_time) \<Rightarrow>
      let duration_slots = m_duration meeting;
          occurrences = occurrences_of (m_frequency meeting);
          time_idx = time_idx_of meeting t
      in
      if time_idx < 0 \<or> time_idx \<ge> MAX_SLOTS then best
      else
        let (valid_weeks, avg_hours) =
              (if m_frequency meeting = ''fortnightly''
               then
                 (case fortnight_pairs ! nat p of (week1, week2) \<Rightarrow>
                    if is_valid_slot s week1 day_idx time_idx duration_slots
                       \<and> is_valid_slot s week2 day_idx time_idx duration_slots
                    then (2, total_hours s day_idx + of_int duration_slots * (1/2))
                    else (0, 0))
               else count_weeks s (\<lambda>_. False) day_idx time_idx duration_slots occurrences
                      [0 .. MAX_WEEKS - 1] (0, 0))
        in
        if valid_weeks \<ge> occurrences \<and> avg_hours / of_int valid_weeks < min_hours
        then (avg_hours / of_int valid_weeks, day_idx, time_idx)
        else best)"

text \<open>The body of the loop over \<open>d\<close>.\<close>

definition try_day ::
  "MeetingScheduler \<Rightarrow> Meeting \<Rightarrow> int list \<Rightarrow> int \<Rightarrow> int \<Rightarrow> best \<Rightarrow> best" where
  "try_day s meeting day_order p d best =
     (let day_idx =
            (if fixed_day_idx meeting \<ge> 0 then fixed_day_idx meeting else day_order ! nat d)
      in
      if meeting_hours s day_idx / 4 > 5/2 then best
      else
        let time_start = (if fixed_time_idx meeting \<ge> 0 then fixed_time_idx meeting else 0);
            time_end =
              (if fixed_time_idx meeting \<ge> 0 then fixed_time_idx meeting + 1 else MAX_SLOTS);
            time_end =
              (if preferred_hours meeting 0 \<ge> 0 \<and> fixed_time_idx meeting < 0
               then pref_end (preferred_hours meeting) 0 else time_end)
        in fold (try_time s meeting p day_idx)
             [time_start .. min time_end MAX_SLOTS - 1] best)"

definition search :: "MeetingScheduler \<Rightarrow> Meeting \<Rightarrow> best" where
  "search s meeting =
     (let day_order = sort_days (total_hours s);
          max_pairs = (if m_frequency meeting = ''fortnightly'' then 2 else 1);
          day_start = (if fixed_day_idx meeting \<ge> 0 then fixed_day_idx meeting else 0);
          day_end =
            (if fixed_day_idx meeting \<ge> 0 then fixed_day_idx meeting + 1 else MAX_DAYS)
      in fold (\<lambda>p best. fold (try_day s meeting day_order p) [day_start .. day_end - 1] best)
           [0 .. max_pairs - 1] (1000000000, -1, -1))"

subsection \<open>Placing a meeting: the commit\<close>

text \<open>What both branches do for a week they commit: a new entry, the hours of the chosen
  day, the cells of the week.\<close>

definition entry_of :: "Meeting \<Rightarrow> int \<Rightarrow> int \<Rightarrow> int \<Rightarrow> ScheduleEntry" where
  "entry_of meeting week chosen_day chosen_time =
     \<lparr>e_week = week, e_day = chosen_day, e_start_time = chosen_time,
      e_name = m_name meeting, e_type = m_type meeting,
      e_duration = m_duration meeting, e_frequency = m_frequency meeting\<rparr>"

definition commit_entry :: "MeetingScheduler \<Rightarrow> Meeting \<Rightarrow> int \<Rightarrow> int \<Rightarrow> int \<Rightarrow> MeetingScheduler" where
  "commit_entry s meeting week chosen_day chosen_time =
     (let duration_slots = m_duration meeting in
      s\<lparr>schedule := schedule s @ [entry_of meeting week chosen_day chosen_time],
        total_hours := (total_hours s)
           (chosen_day := total_hours s chosen_day + of_int duration_slots * (1/2)),
        meeting_hours := (meeting_hours s)
           (chosen_day := meeting_hours s chosen_day + of_int duration_slots * (1/2)),
        blocked_slots :=
           fold (\<lambda>j g. book g week chosen_day (chosen_time + j)) [0 .. duration_slots - 1]
             (blocked_slots s)\<rparr>)"

text \<open>The fortnightly branch: the first pair whose two weeks are valid, or \<open>-1\<close>.\<close>

fun find_pair :: "MeetingScheduler \<Rightarrow> int \<Rightarrow> int \<Rightarrow> int \<Rightarrow> int list \<Rightarrow> int" where
  "find_pair s chosen_day chosen_time duration_slots [] = -1"
| "find_pair s chosen_day chosen_time duration_slots (p # ps) =
     (case fortnight_pairs ! nat p of (week1, week2) \<Rightarrow>
        if is_valid_slot s week1 chosen_day chosen_time duration_slots
           \<and> is_valid_slot s week2 chosen_day chosen_time duration_slots
        then p
        else find_pair s chosen_day chosen_time duration_slots ps)"

fun commit_weeks :: "MeetingScheduler \<Rightarrow> Meeting \<Rightarrow> int list \<Rightarrow> int \<Rightarrow> int \<Rightarrow> outcome" where
  "commit_weeks s meeting [] chosen_day chosen_time = Returns True s"
| "commit_weeks s meeting (week # weeks) chosen_day chosen_time =
     (if schedule_count s \<ge> MAX_MEETINGS * MAX_WEEKS then OutOfBounds
      else commit_weeks (commit_entry s meeting week chosen_day chosen_time) meeting weeks
             chosen_day chosen_time)"

text \<open>The other branch. The shuffle draws \<^verbatim>\<open>rand()\<close> three times, for \<open>i = 3, 2, 1\<close>;
  \<open>rnd k\<close> is the value of the \<open>k\<close>-th draw, a parameter of the model.\<close>

definition swap :: "int list \<Rightarrow> nat \<Rightarrow> nat \<Rightarrow> int list" where
  "swap weeks i j = weeks[i := weeks ! j, j := weeks ! i]"

definition shuffle_weeks :: "(nat \<Rightarrow> nat) \<Rightarrow> int list" where
  "shuffle_weeks rnd =
     fold (\<lambda>i weeks. swap weeks i (rnd (3 - i) mod (i + 1))) [3, 2, 1] [0, 1, 2, 3]"

fun find_week ::
  "MeetingScheduler \<Rightarrow> (int \<Rightarrow> bool) \<Rightarrow> int list \<Rightarrow> int \<Rightarrow> int \<Rightarrow> int \<Rightarrow> int option" where
  "find_week s assigned_weeks [] chosen_day chosen_time duration_slots = None"
| "find_week s assigned_weeks (week # weeks) chosen_day chosen_time duration_slots =
     (if assigned_weeks week
      then find_week s assigned_weeks weeks chosen_day chosen_time duration_slots
      else if is_valid_slot s week chosen_day chosen_time duration_slots then Some week
      else find_week s assigned_weeks weeks chosen_day chosen_time duration_slots)"

text \<open>The loop over the occurrences, counted down: \<open>None\<close> from \<open>find_week\<close> is
  \<^verbatim>\<open>return false\<close> with what the earlier rounds committed.\<close>

fun place_occurrences ::
  "nat \<Rightarrow> MeetingScheduler \<Rightarrow> Meeting \<Rightarrow> int list \<Rightarrow> (int \<Rightarrow> bool) \<Rightarrow> int \<Rightarrow> int \<Rightarrow> outcome" where
  "place_occurrences 0 s meeting weeks assigned_weeks chosen_day chosen_time = Returns True s"
| "place_occurrences (Suc n) s meeting weeks assigned_weeks chosen_day chosen_time =
     (case find_week s assigned_weeks weeks chosen_day chosen_time (m_duration meeting) of
        None \<Rightarrow> Returns False s
      | Some week \<Rightarrow>
          if schedule_count s \<ge> MAX_MEETINGS * MAX_WEEKS then OutOfBounds
          else place_occurrences n (commit_entry s meeting week chosen_day chosen_time)
                 meeting weeks (assigned_weeks(week := True)) chosen_day chosen_time)"

definition add_meeting :: "(nat \<Rightarrow> nat) \<Rightarrow> MeetingScheduler \<Rightarrow> Meeting \<Rightarrow> outcome" where
  "add_meeting rnd s meeting =
     (case search s meeting of (min_hours, chosen_day, chosen_time) \<Rightarrow>
      if chosen_day = -1 \<or> chosen_time = -1 then Returns False s
      else if m_frequency meeting = ''fortnightly'' then
        (let chosen_pair = find_pair s chosen_day chosen_time (m_duration meeting) [0, 1] in
         if chosen_pair = -1 then Returns False s
         else
           (case fortnight_pairs ! nat chosen_pair of (week1, week2) \<Rightarrow>
              commit_weeks s meeting [week1, week2] chosen_day chosen_time))
      else
        place_occurrences (nat (occurrences_of (m_frequency meeting))) s meeting
          (shuffle_weeks rnd) (\<lambda>_. False) chosen_day chosen_time)"

subsection \<open>Notions used to state the properties\<close>

text \<open>How many of the four weeks are valid for a day, a start slot and a duration; whether
  the two weeks of pairing \<open>p\<close> are; and whether a candidate reaches the number of
  occurrences that the frequency asks for, as the search tests it in pass \<open>p\<close>.\<close>

definition valid_week_count :: "MeetingScheduler \<Rightarrow> int \<Rightarrow> int \<Rightarrow> int \<Rightarrow> int" where
  "valid_week_count s day_idx time_idx duration_slots =
     int (length (filter (\<lambda>w. is_valid_slot s w day_idx time_idx duration_slots) [0, 1, 2, 3]))"

definition pair_valid :: "MeetingScheduler \<Rightarrow> int \<Rightarrow> int \<Rightarrow> int \<Rightarrow> int \<Rightarrow> bool" where
  "pair_valid s p day_idx time_idx duration_slots =
     (case fortnight_pairs ! nat p of (week1, week2) \<Rightarrow>
        is_valid_slot s week1 day_idx time_idx duration_slots
        \<and> is_valid_slot s week2 day_idx time_idx duration_slots)"

definition qualifies :: "MeetingScheduler \<Rightarrow> Meeting \<Rightarrow> int \<Rightarrow> int \<Rightarrow> int \<Rightarrow> bool" where
  "qualifies s meeting p day_idx time_idx =
     (if m_frequency meeting = ''fortnightly''
      then pair_valid s p day_idx time_idx (m_duration meeting)
      else valid_week_count s day_idx time_idx (m_duration meeting)
             \<ge> occurrences_of (m_frequency meeting))"

text \<open>The projected hours of a day for a meeting: the day's total hours plus the
  meeting's own duration.\<close>

definition projected_hours :: "MeetingScheduler \<Rightarrow> Meeting \<Rightarrow> int \<Rightarrow> rat" where
  "projected_hours s meeting day_idx =
     total_hours s day_idx + of_int (m_duration meeting) * (1/2)"

text \<open>The value that the search compares with \<^verbatim>\<open>min_hours\<close> for a qualifying
  candidate: \<^verbatim>\<open>avg_hours / valid_weeks\<close>. The fortnightly branch sets
  \<^verbatim>\<open>avg_hours\<close> to the projected hours once and divides by 2.\<close>

definition search_metric :: "MeetingScheduler \<Rightarrow> Meeting \<Rightarrow> int \<Rightarrow> rat" where
  "search_metric s meeting day_idx =
     (if m_frequency meeting = ''fortnightly'' then projected_hours s meeting day_idx / 2
      else projected_hours s meeting day_idx)"

text \<open>A run of commits, one week after the other.\<close>

definition commits :: "Meeting \<Rightarrow> int \<Rightarrow> int \<Rightarrow> int list \<Rightarrow> MeetingScheduler \<Rightarrow> MeetingScheduler" where
  "commits meeting chosen_day chosen_time weeks s =
     fold (\<lambda>week s. commit_entry s meeting week chosen_day chosen_time) weeks s"

subsection \<open>The reading of a time label\<close>

text \<open>The wall-clock hour that a label \<open>HH:MM\<close> denotes, as a decimal hour. No function
  of the program computes it; it states what the labels of \<^verbatim>\<open>TIME_SLOTS\<close> mean.\<close>

definition digit_val :: "char \<Rightarrow> int" where
  "digit_val c = int (of_char c) - 48"

definition wall_clock_hour :: "string \<Rightarrow> rat" where
  "wall_clock_hour l =
     (case l of
        [h1, h2, c, m1, m2] \<Rightarrow>
          of_int (10 * digit_val h1 + digit_val h2)
            + of_int (10 * digit_val m1 + digit_val m2) / 60
      | _ \<Rightarrow> 0)"


subsection \<open>Notions used in the proofs about the search\<close>

text \<open>A day that the search skips: its meeting hours, divided by 4, exceed 2.5.\<close>

definition over_cap :: "MeetingScheduler \<Rightarrow> int \<Rightarrow> bool" where
  "over_cap s d = (meeting_hours s d / 4 > 5/2)"

text \<open>What holds of the state of the search at every moment: nothing is chosen yet, or
  the chosen day and time qualify in one of the passes, the day is within the cap, and it
  is the fixed day if there is one.\<close>

definition chosen_ok :: "MeetingScheduler \<Rightarrow> Meeting \<Rightarrow> best \<Rightarrow> bool" where
  "chosen_ok s m best =
     (case best of (mh, cd, ct) \<Rightarrow>
        (cd = -1 \<and> ct = -1)
        \<or> ((qualifies s m 0 cd ct \<or> (m_frequency m = ''fortnightly'' \<and> qualifies s m 1 cd ct))
           \<and> \<not> over_cap s cd
           \<and> (fixed_day_idx m \<ge> 0 \<longrightarrow> cd = fixed_day_idx m)))"

subsection \<open>The selection rule as the specification words it\<close>

text \<open>The days in the order of the specification: the fixed day alone, or the four days
  sorted by total hours, ascending and stable (\<open>sort_key\<close> is the library's stable
  insertion sort).\<close>

definition candidate_days :: "MeetingScheduler \<Rightarrow> Meeting \<Rightarrow> int list" where
  "candidate_days s m =
     (if fixed_day_idx m \<ge> 0 then [fixed_day_idx m]
      else sort_key (total_hours s) [0, 1, 2, 3])"

text \<open>The times: the fixed time alone; or the preferred times in list order, the list
  being the entries before the first negative one, eight at most; or every slot.\<close>

definition candidate_times :: "Meeting \<Rightarrow> int list" where
  "candidate_times m =
     (if fixed_time_idx m \<ge> 0 then [fixed_time_idx m]
      else if preferred_hours m 0 \<ge> 0
      then takeWhile (\<lambda>h. 0 \<le> h) (map (preferred_hours m) [0 .. 7])
      else [0 .. 13])"

text \<open>The day and time candidates in the nested day-then-time order, the days over the
  cap left out.\<close>

definition candidates :: "MeetingScheduler \<Rightarrow> Meeting \<Rightarrow> (int \<times> int) list" where
  "candidates s m =
     concat (map (\<lambda>d. if over_cap s d then [] else map (\<lambda>t. (d, t)) (candidate_times m))
       (candidate_days s m))"

text \<open>The passes of the search: one for each pairing of a fortnightly request, else
  one.\<close>

definition passes :: "Meeting \<Rightarrow> int list" where
  "passes m = (if m_frequency m = ''fortnightly'' then [0, 1] else [0])"

text \<open>The selection as the specification words it: of the candidates that reach the
  number of occurrences (for a fortnightly request, in one of the pairings), the one with
  the least projected hours, the first in day-then-time order among equals.
  \<open>arg_min_list\<close> returns the first of the minimal elements of a list.\<close>

definition claimed_choice :: "MeetingScheduler \<Rightarrow> Meeting \<Rightarrow> int \<times> int" where
  "claimed_choice s m =
     arg_min_list (\<lambda>(d, t). projected_hours s m d)
       (filter (\<lambda>(d, t). list_ex (\<lambda>p. qualifies s m p d t) (passes m)) (candidates s m))"

text \<open>The candidates in the order in which the search evaluates them, pass by pass, each
  with its pass; those of them that qualify in their pass; and what the search does with
  one candidate.\<close>

definition evaluated :: "MeetingScheduler \<Rightarrow> Meeting \<Rightarrow> (int \<times> int \<times> int) list" where
  "evaluated s m = concat (map (\<lambda>p. map (\<lambda>(d, t). (p, d, t)) (candidates s m)) (passes m))"

definition qualifying :: "MeetingScheduler \<Rightarrow> Meeting \<Rightarrow> (int \<times> int \<times> int) list" where
  "qualifying s m = filter (\<lambda>(p, d, t). qualifies s m p d t) (evaluated s m)"

definition try_candidate :: "MeetingScheduler \<Rightarrow> Meeting \<Rightarrow> int \<times> int \<times> int \<Rightarrow> best \<Rightarrow> best" where
  "try_candidate s m c best =
     (case c of (p, d, t) \<Rightarrow>
        if qualifies s m p d t \<and> search_metric s m d < fst best
        then (search_metric s m d, d, t) else best)"

subsection \<open>Example requests and runs\<close>

text \<open>A request as the \<^verbatim>\<open>/addMeeting\<close> handler builds it from a form without
  preferred times: every entry of \<^verbatim>\<open>preferred_hours\<close> is \<open>-1\<close>, and an absent fixed
  day or time is the empty string.\<close>

definition example_meeting :: "string \<Rightarrow> int \<Rightarrow> string \<Rightarrow> string \<Rightarrow> Meeting" where
  "example_meeting frequency duration_slots day time =
     \<lparr>m_name = ''Sync'', m_type = ''Design'', m_duration = duration_slots,
      preferred_hours = (\<lambda>_. -1), fixed_day = day, fixed_time = time,
      m_frequency = frequency\<rparr>"

text \<open>The scheduler that a call leaves, and whether the call returned true or false.\<close>

fun then_state :: "outcome \<Rightarrow> MeetingScheduler" where
  "then_state (Returns ok s) = s"
| "then_state OutOfBounds = init_scheduler"

fun accepted :: "outcome \<Rightarrow> bool" where
  "accepted (Returns ok s) = ok"
| "accepted OutOfBounds = False"

fun rejected :: "outcome \<Rightarrow> bool" where
  "rejected (Returns ok s) = (\<not> ok)"
| "rejected OutOfBounds = False"

text \<open>The scheduler after one monthly meeting on Monday at 09:00 whose shuffle leaves the
  weeks in order, so that the meeting takes week 0.\<close>

definition one_week_taken :: MeetingScheduler where
  "one_week_taken =
     then_state (add_meeting (\<lambda>k. [3, 2, 1] ! k) init_scheduler
       (example_meeting ''monthly'' 1 ''Monday'' ''09:00''))"

text \<open>The scheduler after two weekly 90-minute meetings fixed on Monday, at 09:00 and at
  13:00: Monday then carries 12 meeting hours.\<close>

definition monday_loaded :: MeetingScheduler where
  "monday_loaded =
     then_state (add_meeting (\<lambda>_. 0)
       (then_state (add_meeting (\<lambda>_. 0) init_scheduler
          (example_meeting ''weekly'' 3 ''Monday'' ''09:00'')))
       (example_meeting ''weekly'' 3 ''Monday'' ''13:00''))"

section \<open>Evaluation lemmas\<close>

lemma upto_weeks: "[0 .. MAX_WEEKS - 1] = [0, 1, 2, 3]"
  by (simp add: MAX_WEEKS_def upto.simps)

lemma upto_slots:
  "[0 .. (-1::int)] = []" "[0 .. (0::int)] = [0]" "[0 .. (1::int)] = [0, 1]"
  "[0 .. (2::int)] = [0, 1, 2]" "[0 .. (3::int)] = [0, 1, 2, 3]"
  by (simp_all add: upto.simps)

lemmas calendar_defs = find_day_index_def find_slot_index_def DAYS_def TIME_SLOTS_def
  is_break_slot_def BREAK_SLOTS_def slot_label_def slot_to_hour_def MAX_SLOTS_def
  signed_divide_int_def signed_modulo_int_def

lemmas reserve_eval = reserve_slot_def Let_def calendar_defs upto_weeks upto_slots
  book_def reservation_count_def MAX_RESERVATIONS_def init_scheduler_def MAX_WEEKS_def

section \<open>The slot calendar\<close>

lemma slot_index_cases:
  "0 \<le> i \<Longrightarrow> i < 14 \<Longrightarrow> i \<in> set [0, 1, 2, 3, 4, 5, 6, 7, 8, 9, 10, 11, 12, 13 :: int]"
  by (simp, arith)

lemma slot_to_hour_labels:
  "\<forall>i \<in> set [0, 1, 2, 3, 4, 5, 6, 7, 8, 9, 10, 11, 12, 13 :: int].
     slot_to_hour i = wall_clock_hour (slot_label i) \<and> find_slot_index (slot_label i) = i"
  by (simp add: calendar_defs wall_clock_hour_def digit_val_def)

lemma labels_indexed:
  "\<forall>l \<in> set TIME_SLOTS. slot_label (find_slot_index l) = l \<and> \<not> is_break_slot l"
  by (simp add: calendar_defs)


lemma find_slot_index_range:
  "find_slot_index t = -1 \<or> (0 \<le> find_slot_index t \<and> find_slot_index t < 14)"
  by (simp add: find_slot_index_def TIME_SLOTS_def)

text \<open>
  C9. Index and label are exact inverses over the 14 labels of \<^verbatim>\<open>TIME_SLOTS\<close>: for
  every index \<open>i\<close> of 0..13, \<open>slot_to_hour i\<close> is the wall-clock hour of the label at
  \<open>i\<close> (index 6 is 13:00, one hour past the raw value), and \<open>find_slot_index\<close> of that
  label is \<open>i\<close>; every label of the table is the label of its index. The two break labels
  are recognised by \<open>is_break_slot\<close> and \<open>find_slot_index\<close> gives them no index.
\<close>

theorem slot_index_label_inverse:
  "(\<forall>i. 0 \<le> i \<and> i < MAX_SLOTS \<longrightarrow>
      slot_to_hour i = wall_clock_hour (slot_label i) \<and> find_slot_index (slot_label i) = i)
   \<and> (\<forall>l \<in> set TIME_SLOTS. slot_label (find_slot_index l) = l)
   \<and> length TIME_SLOTS = nat MAX_SLOTS
   \<and> slot_to_hour 5 = 11 + 1/2 \<and> slot_to_hour 6 = 13
   \<and> is_break_slot ''12:00'' \<and> is_break_slot ''12:30''
   \<and> find_slot_index ''12:00'' = -1 \<and> find_slot_index ''12:30'' = -1"
proof -
  have "slot_to_hour i = wall_clock_hour (slot_label i) \<and> find_slot_index (slot_label i) = i"
    if "0 \<le> i" "i < MAX_SLOTS" for i
    using that slot_to_hour_labels slot_index_cases[of i] unfolding MAX_SLOTS_def by blast
  moreover have "\<forall>l \<in> set TIME_SLOTS. slot_label (find_slot_index l) = l"
    using labels_indexed by blast
  moreover have "length TIME_SLOTS = nat MAX_SLOTS"
    by (simp add: TIME_SLOTS_def MAX_SLOTS_def)
  moreover have "slot_to_hour 5 = 11 + 1/2 \<and> slot_to_hour 6 = 13"
    by (simp add: calendar_defs)
  moreover have "is_break_slot ''12:00'' \<and> is_break_slot ''12:30''
      \<and> find_slot_index ''12:00'' = -1 \<and> find_slot_index ''12:30'' = -1"
    by (simp add: calendar_defs)
  ultimately show ?thesis by blast
qed

theorem slot_index_label_inverse_witness:
  "slot_to_hour 8 = wall_clock_hour (slot_label 8) \<and> find_slot_index (slot_label 8) = 8
   \<and> slot_label 8 = ''14:00'' \<and> slot_label (find_slot_index ''16:30'') = ''16:30''"
proof -
  have "(0::int) \<le> 8 \<and> 8 < MAX_SLOTS" by (simp add: MAX_SLOTS_def)
  moreover have "''16:30'' \<in> set TIME_SLOTS" by (simp add: TIME_SLOTS_def)
  moreover have "slot_label 8 = ''14:00''" by (simp add: slot_label_def TIME_SLOTS_def)
  ultimately show ?thesis using slot_index_label_inverse by blast
qed

section \<open>Reservations\<close>

lemma book_apply: "book g w d k w' d' k' = (g w' d' k' \<or> (w' = w \<and> d' = d \<and> k' = k))"
  by (auto simp: book_def)






text \<open>
  C1, at a conflicting call. On the empty scheduler \<open>reserve(Monday, 09:30, 30)\<close> is
  accepted. Then \<open>reserve(Monday, 09:00, 60)\<close> covers the slots 0 and 1, and slot 1 is
  occupied: the call returns false and leaves the reservation list and the total hours
  as they were, but the cell (week 0, Monday, slot 0), free before the call, is occupied
  after it. The loop books each cell as soon as it has tested it.
\<close>

theorem reserve_slot_conflict_books_cells:
  "(case reserve_slot init_scheduler ''Monday'' ''09:30'' 30 of
      Returns ok s \<Rightarrow>
        ok \<and> \<not> blocked_slots s 0 0 0 \<and> blocked_slots s 0 0 1
        \<and> (case reserve_slot s ''Monday'' ''09:00'' 60 of
              Returns ok' s' \<Rightarrow>
                \<not> ok' \<and> blocked_slots s' 0 0 0
                \<and> reservations s' = reservations s \<and> total_hours s' = total_hours s
            | OutOfBounds \<Rightarrow> False)
    | OutOfBounds \<Rightarrow> False)"
  by (simp add: reserve_eval)

theorem reserve_slot_conflict_books_cells_witness:
  "\<exists>s s'. reserve_slot init_scheduler ''Monday'' ''09:30'' 30 = Returns True s
     \<and> reserve_slot s ''Monday'' ''09:00'' 60 = Returns False s'
     \<and> blocked_slots s' \<noteq> blocked_slots s"
  using reserve_slot_conflict_books_cells by (auto split: outcome.splits)

text \<open>
  C4, as stated, fails: after \<open>reserve(Tuesday, 14:00, 60)\<close> on the empty scheduler the
  cells (week 0, Tuesday, slot 10) and (week 0, Tuesday, slot 11) are free. Slot 10 is
  15:00; the label 14:00 has index 8.
\<close>

theorem reserve_tuesday_slot_10_free:
  "(case reserve_slot init_scheduler ''Tuesday'' ''14:00'' 60 of
      Returns ok s \<Rightarrow> ok \<and> \<not> blocked_slots s 0 1 10 \<and> \<not> blocked_slots s 0 1 11
    | OutOfBounds \<Rightarrow> False)"
  by (simp add: reserve_eval)

text \<open>
  C4, amended. Starting from the empty scheduler, \<open>reserve(Tuesday, 14:00, 60)\<close> returns
  true, and afterwards the cells (week w, Tuesday, slot 8) and (week w, Tuesday, slot 9)
  are occupied for every week w of 0..3, 8 being the index of 14:00; a following
  \<open>reserve(Tuesday, 14:00, 30)\<close> returns false and leaves the scheduler unchanged.
\<close>

theorem reserve_tuesday_scenario:
  "(case reserve_slot init_scheduler ''Tuesday'' ''14:00'' 60 of
      Returns ok s \<Rightarrow>
        ok \<and> find_slot_index ''14:00'' = 8
        \<and> blocked_slots s 0 1 8 \<and> blocked_slots s 0 1 9
        \<and> blocked_slots s 1 1 8 \<and> blocked_slots s 1 1 9
        \<and> blocked_slots s 2 1 8 \<and> blocked_slots s 2 1 9
        \<and> blocked_slots s 3 1 8 \<and> blocked_slots s 3 1 9
        \<and> reserve_slot s ''Tuesday'' ''14:00'' 30 = Returns False s
    | OutOfBounds \<Rightarrow> False)"
  by (simp add: reserve_eval)

theorem reserve_tuesday_scenario_witness:
  "\<exists>s. reserve_slot init_scheduler ''Tuesday'' ''14:00'' 60 = Returns True s
     \<and> blocked_slots s 3 1 9
     \<and> reserve_slot s ''Tuesday'' ''14:00'' 30 = Returns False s"
  using reserve_tuesday_scenario by (auto split: outcome.splits)

section \<open>Validity and commits\<close>


lemma rejected_Returns: "rejected r \<Longrightarrow> r = Returns False (then_state r)"
  by (cases r) auto

lemma fold_book_other_week:
  "w \<noteq> week \<Longrightarrow> fold (\<lambda>j g. book g week d (t + j)) js g w = g w"
  by (induction js arbitrary: g) (simp_all add: book_def)

lemma is_valid_slot_plane:
  "blocked_slots s' w = blocked_slots s w \<Longrightarrow>
   is_valid_slot s' w d t n = is_valid_slot s w d t n"
  by (simp add: is_valid_slot_def)

lemma commit_entry_other_week:
  "w \<noteq> week \<Longrightarrow> is_valid_slot (commit_entry s m week d t) w d' t' n = is_valid_slot s w d' t' n"
  by (rule is_valid_slot_plane) (simp add: commit_entry_def Let_def fold_book_other_week)

lemma commits_Nil: "commits m d t [] s = s"
  by (simp add: commits_def)

lemma commits_Cons: "commits m d t (w # ws) s = commits m d t ws (commit_entry s m w d t)"
  by (simp add: commits_def)

lemma schedule_commits:
  "schedule (commits m d t ws s) = schedule s @ map (\<lambda>w. entry_of m w d t) ws"
  by (induction ws arbitrary: s) (simp_all add: commits_Nil commits_Cons commit_entry_def Let_def)

lemma reservations_commits: "reservations (commits m d t ws s) = reservations s"
  by (induction ws arbitrary: s) (simp_all add: commits_Nil commits_Cons commit_entry_def Let_def)

lemma find_week_Some:
  "find_week s asg weeks d t n = Some w \<Longrightarrow>
   w \<in> set weeks \<and> \<not> asg w \<and> is_valid_slot s w d t n"
  by (induction weeks) (auto split: if_splits)

lemma find_week_None:
  "find_week s asg weeks d t n = None \<Longrightarrow>
   \<forall>w \<in> set weeks. asg w \<or> \<not> is_valid_slot s w d t n"
  by (induction weeks) (auto split: if_splits)


lemma place_occurrences_False:
  "place_occurrences n s m weeks asg d t = Returns False s' \<Longrightarrow>
   \<exists>ws. length ws < n \<and> distinct ws \<and> set ws \<subseteq> set weeks
     \<and> (\<forall>w \<in> set ws. \<not> asg w \<and> is_valid_slot s w d t (m_duration m))
     \<and> s' = commits m d t ws s
     \<and> (\<forall>w \<in> set weeks. asg w \<or> w \<in> set ws \<or> \<not> is_valid_slot s w d t (m_duration m))"
proof (induction n arbitrary: s asg)
  case 0
  then show ?case by simp
next
  case (Suc n)
  show ?case
  proof (cases "find_week s asg weeks d t (m_duration m)")
    case None
    with Suc.prems have "s' = s" by simp
    with find_week_None[OF None] show ?thesis
      by (intro exI[of _ "[]"]) (simp add: commits_Nil)
  next
    case (Some week)
    with Suc.prems have
      rest: "place_occurrences n (commit_entry s m week d t) m weeks (asg(week := True)) d t
               = Returns False s'"
      by (auto split: if_splits)
    from Suc.IH[OF rest] obtain ws where ws: "length ws < n" "distinct ws" "set ws \<subseteq> set weeks"
      "\<forall>w \<in> set ws. \<not> (asg(week := True)) w
          \<and> is_valid_slot (commit_entry s m week d t) w d t (m_duration m)"
      "s' = commits m d t ws (commit_entry s m week d t)"
      "\<forall>w \<in> set weeks. (asg(week := True)) w \<or> w \<in> set ws
          \<or> \<not> is_valid_slot (commit_entry s m week d t) w d t (m_duration m)"
      by blast
    from ws(4) have notin: "week \<notin> set ws" by auto
    from ws(4) notin have a: "\<forall>w \<in> set ws. \<not> asg w \<and> is_valid_slot s w d t (m_duration m)"
      by (auto simp: commit_entry_other_week split: if_splits)
    from ws(6) have b: "\<forall>w \<in> set weeks. asg w \<or> w \<in> set (week # ws)
          \<or> \<not> is_valid_slot s w d t (m_duration m)"
      by (auto simp: commit_entry_other_week split: if_splits)
    from find_week_Some[OF Some] ws notin a b show ?thesis
      by (intro exI[of _ "week # ws"]) (auto simp: commits_Cons)
  qed
qed

lemma swap_perm:
  "distinct ws \<Longrightarrow> i < length ws \<Longrightarrow> j < length ws \<Longrightarrow>
   distinct (swap ws i j) \<and> set (swap ws i j) = set ws \<and> length (swap ws i j) = length ws"
  by (simp add: swap_def)

lemma shuffle_weeks_perm:
  "distinct (shuffle_weeks rnd) \<and> set (shuffle_weeks rnd) = {0, 1, 2, 3}"
proof -
  define w1 where "w1 = swap [0, 1, 2, 3] 3 (rnd 0 mod 4)"
  define w2 where "w2 = swap w1 2 (rnd 1 mod 3)"
  define w3 where "w3 = swap w2 1 (rnd 2 mod 2)"
  have j: "rnd 0 mod 4 < 4" "rnd 1 mod 3 < 4" "rnd 2 mod 2 < 4"
    by simp_all
  have 1: "distinct w1 \<and> set w1 = {0, 1, 2, 3} \<and> length w1 = 4"
    unfolding w1_def using swap_perm[of "[0, 1, 2, 3]" 3 "rnd 0 mod 4"] j by simp
  have 2: "distinct w2 \<and> set w2 = {0, 1, 2, 3} \<and> length w2 = 4"
    unfolding w2_def using swap_perm[of w1 2 "rnd 1 mod 3"] 1 j by simp
  have 3: "distinct w3 \<and> set w3 = {0, 1, 2, 3} \<and> length w3 = 4"
    unfolding w3_def using swap_perm[of w2 1 "rnd 2 mod 2"] 2 j by simp
  have "shuffle_weeks rnd = w3"
    by (simp add: shuffle_weeks_def w1_def w2_def w3_def numeral_2_eq_2)
  with 3 show ?thesis by simp
qed

lemma fold_book_apply:
  "fold (\<lambda>j g. book g week d (t + j)) js g w d' k =
     (g w d' k \<or> (w = week \<and> d' = d \<and> k \<in> (\<lambda>j. t + j) ` set js))"
  by (induction js arbitrary: g) (auto simp: book_apply)

lemma blocked_commit_entry:
  "blocked_slots (commit_entry s m week d t) w d' k =
     (blocked_slots s w d' k
      \<or> (w = week \<and> d' = d \<and> t \<le> k \<and> k < t + m_duration m))"
proof -
  have "k \<in> (\<lambda>j. t + j) ` set [0 .. m_duration m - 1] \<longleftrightarrow> t \<le> k \<and> k < t + m_duration m"
    by (auto simp: image_iff)
  then show ?thesis
    by (simp add: commit_entry_def Let_def fold_book_apply)
qed

lemma blocked_commits:
  "blocked_slots (commits m d t ws s) w d' k =
     (blocked_slots s w d' k
      \<or> (w \<in> set ws \<and> d' = d \<and> t \<le> k \<and> k < t + m_duration m))"
  by (induction ws arbitrary: s) (auto simp: commits_Nil commits_Cons blocked_commit_entry)

lemma total_hours_commits:
  "total_hours (commits m d t ws s) =
     (total_hours s)(d := total_hours s d + of_nat (length ws) * (of_int (m_duration m) * (1/2)))"
  by (induction ws arbitrary: s)
     (simp_all add: commits_Nil commits_Cons commit_entry_def Let_def algebra_simps add_divide_distrib)

lemma meeting_hours_commits:
  "meeting_hours (commits m d t ws s) =
     (meeting_hours s)(d := meeting_hours s d + of_nat (length ws) * (of_int (m_duration m) * (1/2)))"
  by (induction ws arbitrary: s)
     (simp_all add: commits_Nil commits_Cons commit_entry_def Let_def algebra_simps add_divide_distrib)

section \<open>The search\<close>

lemma is_valid_slot_range:
  "is_valid_slot s w d t n \<Longrightarrow> 0 \<le> t \<and> t < MAX_SLOTS"
  by (auto simp: is_valid_slot_def split: if_splits)

lemma occurrences_of_cases:
  "occurrences_of f = (if f = ''weekly'' then 4 else if f = ''fortnightly'' then 2 else 1)"
  by (simp add: occurrences_of_def)

lemma count_weeks_result:
  "vw0 < occ \<Longrightarrow> count_weeks s (\<lambda>_. False) d t n occ ws (vw0, a0) = (vw, a) \<Longrightarrow>
   vw = min occ (vw0 + int (length (filter (\<lambda>w. is_valid_slot s w d t n) ws)))
   \<and> a = a0 + of_int (vw - vw0) * (total_hours s d + of_int n * (1/2))"
proof (induction ws arbitrary: vw0 a0)
  case Nil
  then show ?case by simp
next
  case (Cons w ws)
  show ?case
  proof (cases "is_valid_slot s w d t n")
    case False
    with Cons.prems have "count_weeks s (\<lambda>_. False) d t n occ ws (vw0, a0) = (vw, a)"
      by simp
    from Cons.IH[OF Cons.prems(1) this] False show ?thesis by simp
  next
    case True
    show ?thesis
    proof (cases "vw0 + 1 \<ge> occ")
      case True
      with \<open>is_valid_slot s w d t n\<close> Cons.prems show ?thesis
        by (auto simp: min_def)
    next
      case False
      with \<open>is_valid_slot s w d t n\<close> Cons.prems have
        "count_weeks s (\<lambda>_. False) d t n occ ws
           (vw0 + 1, a0 + (total_hours s d + of_int n * (1/2))) = (vw, a)"
        by simp
      from Cons.IH[OF _ this] False have
        1: "vw = min occ (vw0 + 1 + int (length (filter (\<lambda>w. is_valid_slot s w d t n) ws)))"
        and 2: "a = a0 + (total_hours s d + of_int n * (1/2))
                  + of_int (vw - (vw0 + 1)) * (total_hours s d + of_int n * (1/2))"
        by simp_all
      have "of_int (vw - vw0) * x = x + of_int (vw - (vw0 + 1)) * x" for x :: rat
        by (simp add: algebra_simps)
      with 1 2 \<open>is_valid_slot s w d t n\<close> show ?thesis
        by (simp add: add.assoc)
    qed
  qed
qed

lemma try_time_step:
  "try_time s m p d t (mh, cd, ct) =
     (if qualifies s m p d (time_idx_of m t) \<and> search_metric s m d < mh
      then (search_metric s m d, d, time_idx_of m t) else (mh, cd, ct))"
proof (cases "m_frequency m = ''fortnightly''")
  case True
  have "\<not> pair_valid s p d (time_idx_of m t) (m_duration m)"
    if "time_idx_of m t < 0 \<or> time_idx_of m t \<ge> MAX_SLOTS"
    using that is_valid_slot_range[of s _ d "time_idx_of m t" "m_duration m"]
    by (auto simp: pair_valid_def split: prod.splits)
  with True show ?thesis
    by (auto simp: try_time_def Let_def qualifies_def search_metric_def projected_hours_def
        pair_valid_def occurrences_of_def split: prod.splits)
next
  case False
  let ?ti = "time_idx_of m t"
  let ?occ = "occurrences_of (m_frequency m)"
  obtain vw a where c: "count_weeks s (\<lambda>_. False) d ?ti (m_duration m) ?occ [0, 1, 2, 3] (0, 0)
      = (vw, a)" by fastforce
  have occ: "0 < ?occ" by (simp add: occurrences_of_def)
  from count_weeks_result[OF occ c] have
    vw: "vw = min ?occ (valid_week_count s d ?ti (m_duration m))"
    and a: "a = of_int vw * projected_hours s m d"
    by (simp_all add: valid_week_count_def projected_hours_def)
  have q: "qualifies s m p d ?ti \<longleftrightarrow> vw \<ge> ?occ"
    using False vw by (auto simp: qualifies_def)
  have avg: "a / of_int vw = projected_hours s m d" if "vw \<ge> ?occ"
    using that occ a by simp
  have range: "\<not> qualifies s m p d ?ti" if "?ti < 0 \<or> ?ti \<ge> MAX_SLOTS"
  proof -
    have "filter (\<lambda>w. is_valid_slot s w d ?ti (m_duration m)) [0, 1, 2, 3] = []"
      using that is_valid_slot_range[of s _ d ?ti "m_duration m"] by auto
    then show ?thesis using False occ by (simp add: qualifies_def valid_week_count_def)
  qed
  show ?thesis
    using False c q avg range
    by (auto simp: try_time_def Let_def upto_weeks search_metric_def)
qed

lemma commit_weeks_result:
  "commit_weeks s m ws d t = OutOfBounds
   \<or> commit_weeks s m ws d t = Returns True (commits m d t ws s)"
  by (induction ws arbitrary: s) (auto simp: commits_Nil commits_Cons)

lemma find_pair_result:
  "find_pair s d t n [0, 1] = -1 \<and> \<not> pair_valid s 0 d t n \<and> \<not> pair_valid s 1 d t n
   \<or> find_pair s d t n [0, 1] = 0 \<and> pair_valid s 0 d t n
   \<or> find_pair s d t n [0, 1] = 1 \<and> pair_valid s 1 d t n \<and> \<not> pair_valid s 0 d t n"
  by (auto simp: pair_valid_def fortnight_pairs_def)

lemma try_time_ok:
  assumes "chosen_ok s m best" "p = 0 \<or> (m_frequency m = ''fortnightly'' \<and> p = 1)"
    "\<not> over_cap s d" "fixed_day_idx m \<ge> 0 \<longrightarrow> d = fixed_day_idx m"
  shows "chosen_ok s m (try_time s m p d t best)"
proof -
  obtain mh cd ct where b: "best = (mh, cd, ct)" by (cases best)
  show ?thesis
    using assms unfolding b try_time_step chosen_ok_def by auto
qed

lemma try_day_ok:
  assumes "chosen_ok s m best" "p = 0 \<or> (m_frequency m = ''fortnightly'' \<and> p = 1)"
  shows "chosen_ok s m (try_day s m order p d best)"
proof -
  let ?d = "if fixed_day_idx m \<ge> 0 then fixed_day_idx m else order ! nat d"
  show ?thesis
  proof (cases "over_cap s ?d")
    case True
    then show ?thesis using assms(1) by (simp add: try_day_def Let_def over_cap_def)
  next
    case False
    have "chosen_ok s m (fold (try_time s m p ?d) ts best)" for ts
      by (rule fold_invariant[where Q = "\<lambda>_. True"])
         (use assms False in \<open>auto intro: try_time_ok\<close>)
    with False show ?thesis
      by (simp add: try_day_def Let_def over_cap_def)
  qed
qed

lemma search_ok: "chosen_ok s m (search s m)"
proof -
  have init: "chosen_ok s m (1000000000, -1, -1)" by (simp add: chosen_ok_def)
  have days: "chosen_ok s m (fold (try_day s m order p) ds best)"
    if "chosen_ok s m best" "p = 0 \<or> (m_frequency m = ''fortnightly'' \<and> p = 1)"
    for order p ds best
    by (rule fold_invariant[where Q = "\<lambda>_. True"]) (use that in \<open>auto intro: try_day_ok\<close>)
  show ?thesis
  proof (cases "m_frequency m = ''fortnightly''")
    case True
    then show ?thesis
      using init days by (simp add: search_def Let_def upto_slots)
  next
    case False
    then show ?thesis
      using init days by (simp add: search_def Let_def upto_slots)
  qed
qed

section \<open>What a call of add\_meeting leaves\<close>

lemma valid_weeks_committed:
  assumes "\<forall>w \<in> {0, 1, 2, 3}. w \<in> set ws \<or> \<not> is_valid_slot s w d t n"
  shows "valid_week_count s d t n \<le> int (length ws)"
proof -
  let ?vs = "filter (\<lambda>w. is_valid_slot s w d t n) [0, 1, 2, 3]"
  have "distinct ?vs" by simp
  then have "length ?vs = card (set ?vs)" by (simp add: distinct_card)
  also have "\<dots> \<le> card (set ws)" using assms by (intro card_mono) auto
  also have "\<dots> \<le> length ws" by (rule card_length)
  finally show ?thesis by (simp add: valid_week_count_def)
qed

lemma add_meeting_False_unchosen:
  assumes "add_meeting rnd s m = Returns False s'" "search s m = (mh, cd, ct)"
  shows "cd = -1 \<or> ct = -1"
proof (rule ccontr)
  assume chosen: "\<not> (cd = -1 \<or> ct = -1)"
  show False
  proof (cases "m_frequency m = ''fortnightly''")
    case True
    define p where "p = find_pair s cd ct (m_duration m) [0, 1]"
    from search_ok[of s m] assms(2) chosen True have
      "pair_valid s 0 cd ct (m_duration m) \<or> pair_valid s 1 cd ct (m_duration m)"
      by (auto simp: chosen_ok_def qualifies_def)
    with find_pair_result[of s cd ct "m_duration m"] have p: "p = 0 \<or> p = 1"
      unfolding p_def by auto
    then have pair: "fortnight_pairs ! nat p = (p, p + 2)"
      by (auto simp: fortnight_pairs_def)
    from assms chosen True p pair have
      "commit_weeks s m [p, p + 2] cd ct = Returns False s'"
      unfolding p_def
      by (auto simp: add_meeting_def Let_def simp del: find_pair.simps commit_weeks.simps)
    with commit_weeks_result[of s m "[p, p + 2]" cd ct] show False by simp
  next
    case False
    let ?n = "nat (occurrences_of (m_frequency m))"
    from assms chosen False have
      "place_occurrences ?n s m (shuffle_weeks rnd) (\<lambda>_. False) cd ct = Returns False s'"
      by (simp add: add_meeting_def)
    from place_occurrences_False[OF this] obtain ws where
      ws: "length ws < ?n"
      "\<forall>w \<in> set (shuffle_weeks rnd). w \<in> set ws \<or> \<not> is_valid_slot s w cd ct (m_duration m)"
      by auto
    from ws(2) have "valid_week_count s cd ct (m_duration m) \<le> int (length ws)"
      using shuffle_weeks_perm[of rnd] by (intro valid_weeks_committed) simp
    moreover from search_ok[of s m] assms(2) chosen False have
      "occurrences_of (m_frequency m) \<le> valid_week_count s cd ct (m_duration m)"
      by (auto simp: chosen_ok_def qualifies_def)
    ultimately show False using ws(1) by linarith
  qed
qed

lemma add_meeting_False:
  assumes "add_meeting rnd s m = Returns False s'"
  shows "s' = s"
proof -
  obtain mh cd ct where sr: "search s m = (mh, cd, ct)" by (cases "search s m")
  from add_meeting_False_unchosen[OF assms sr] assms sr show ?thesis
    by (auto simp: add_meeting_def)
qed

lemma length_four: "length xs = 4 \<Longrightarrow> \<exists>a b c d. xs = [a, b, c, d]"
  by (auto simp: length_Suc_conv eval_nat_numeral)





section \<open>The cap on meeting hours\<close>

text \<open>
  C3, as stated, fails. After two weekly 90-minute meetings fixed on Monday (09:00 and
  13:00, both accepted) Monday carries 12 meeting hours, 3 per week. Monday 15:00 is
  then free in all four weeks, yet a monthly 30-minute request with the fixed day Monday
  and the fixed time 15:00 is rejected: the skip applies to the fixed day as well.
\<close>

theorem fixed_day_over_cap_fails:
  "accepted (add_meeting (\<lambda>_. 0) init_scheduler
       (example_meeting ''weekly'' 3 ''Monday'' ''09:00''))
   \<and> accepted (add_meeting (\<lambda>_. 0)
       (then_state (add_meeting (\<lambda>_. 0) init_scheduler
          (example_meeting ''weekly'' 3 ''Monday'' ''09:00'')))
       (example_meeting ''weekly'' 3 ''Monday'' ''13:00''))
   \<and> meeting_hours monday_loaded 0 / 4 = 3
   \<and> is_valid_slot monday_loaded 0 0 10 1 \<and> is_valid_slot monday_loaded 1 0 10 1
   \<and> is_valid_slot monday_loaded 2 0 10 1 \<and> is_valid_slot monday_loaded 3 0 10 1
   \<and> rejected (add_meeting (\<lambda>_. 0) monday_loaded
        (example_meeting ''monthly'' 1 ''Monday'' ''15:00''))"
  by code_simp

text \<open>
  C3, amended. A day whose meeting hours divided by 4 exceed 2.5 is skipped as a
  candidate, and the skip applies to a fixed-day request too: the search never chooses
  such a day, and a request whose fixed day is such a day fails and leaves the scheduler
  unchanged.
\<close>

theorem over_cap_day_never_chosen:
  "(\<forall>mh cd ct. search s m = (mh, cd, ct) \<longrightarrow>
      (cd = -1 \<and> ct = -1) \<or> meeting_hours s cd / 4 \<le> 5/2)
   \<and> (fixed_day_idx m \<ge> 0 \<and> meeting_hours s (fixed_day_idx m) / 4 > 5/2 \<longrightarrow>
        add_meeting rnd s m = Returns False s)"
proof -
  have 1: "(cd = -1 \<and> ct = -1) \<or> meeting_hours s cd / 4 \<le> 5/2"
    if "search s m = (mh, cd, ct)" for mh cd ct
    using search_ok[of s m] that by (auto simp: chosen_ok_def over_cap_def)
  have 2: "add_meeting rnd s m = Returns False s"
    if "fixed_day_idx m \<ge> 0" "meeting_hours s (fixed_day_idx m) / 4 > 5/2"
  proof -
    obtain mh cd ct where sr: "search s m = (mh, cd, ct)" by (cases "search s m")
    with search_ok[of s m] that have "cd = -1 \<and> ct = -1"
      by (auto simp: chosen_ok_def over_cap_def)
    with sr show ?thesis by (simp add: add_meeting_def)
  qed
  from 1 2 show ?thesis by blast
qed

theorem over_cap_day_never_chosen_witness:
  "fixed_day_idx (example_meeting ''monthly'' 1 ''Monday'' ''15:00'') = 0
   \<and> meeting_hours monday_loaded 0 / 4 = 3
   \<and> add_meeting (\<lambda>_. 0) monday_loaded (example_meeting ''monthly'' 1 ''Monday'' ''15:00'')
       = Returns False monday_loaded"
proof -
  let ?m = "example_meeting ''monthly'' 1 ''Monday'' ''15:00''"
  have ev: "fixed_day_idx ?m = 0 \<and> meeting_hours monday_loaded 0 / 4 = 3" by code_simp
  then have "fixed_day_idx ?m \<ge> 0 \<and> meeting_hours monday_loaded (fixed_day_idx ?m) / 4 > 5/2"
    by simp
  with over_cap_day_never_chosen[of monday_loaded ?m "\<lambda>_. 0"] ev show ?thesis by blast
qed

section \<open>Failure and partial commits\<close>

text \<open>
  C7, as stated, fails: there is no scheduler and request for which \<open>add_meeting\<close>
  returns false and leaves a changed scheduler.
\<close>

theorem failure_leaves_state:
  "\<not> (\<exists>rnd s m s'. add_meeting rnd s m = Returns False s' \<and> s' \<noteq> s)"
  using add_meeting_False by blast

text \<open>
  C7, amended. In the loop that commits the occurrences of a request that is not
  fortnightly, if for some occurrence no remaining valid week is found, the loop returns
  false and every occurrence committed earlier in the loop stays applied: its entry is in
  the schedule, its cells are occupied, and the total and meeting hours keep its
  increment. No call of \<open>add_meeting\<close> takes that exit: the search has found enough
  valid weeks before the loop starts, so whenever \<open>add_meeting\<close> returns false the
  scheduler is unchanged.
\<close>

theorem commit_loop_failure:
  "(place_occurrences n s m weeks asg d t = Returns False s' \<longrightarrow>
      (\<exists>ws. length ws < n \<and> distinct ws \<and> s' = commits m d t ws s
         \<and> schedule s' = schedule s @ map (\<lambda>w. entry_of m w d t) ws
         \<and> (\<forall>w k. blocked_slots s' w d k =
               (blocked_slots s w d k \<or> (w \<in> set ws \<and> t \<le> k \<and> k < t + m_duration m)))
         \<and> total_hours s' d =
             total_hours s d + of_nat (length ws) * (of_int (m_duration m) * (1/2))
         \<and> meeting_hours s' d =
             meeting_hours s d + of_nat (length ws) * (of_int (m_duration m) * (1/2))))
   \<and> (add_meeting rnd s0 m0 = Returns False s0' \<longrightarrow> s0' = s0)"
proof -
  have "\<exists>ws. length ws < n \<and> distinct ws \<and> s' = commits m d t ws s
         \<and> schedule s' = schedule s @ map (\<lambda>w. entry_of m w d t) ws
         \<and> (\<forall>w k. blocked_slots s' w d k =
               (blocked_slots s w d k \<or> (w \<in> set ws \<and> t \<le> k \<and> k < t + m_duration m)))
         \<and> total_hours s' d =
             total_hours s d + of_nat (length ws) * (of_int (m_duration m) * (1/2))
         \<and> meeting_hours s' d =
             meeting_hours s d + of_nat (length ws) * (of_int (m_duration m) * (1/2))"
    if "place_occurrences n s m weeks asg d t = Returns False s'"
  proof -
    from place_occurrences_False[OF that] obtain ws where
      ws: "length ws < n" "distinct ws" "s' = commits m d t ws s" by blast
    have "schedule s' = schedule s @ map (\<lambda>w. entry_of m w d t) ws"
      by (simp add: ws(3) schedule_commits)
    moreover have "\<forall>w k. blocked_slots s' w d k =
               (blocked_slots s w d k \<or> (w \<in> set ws \<and> t \<le> k \<and> k < t + m_duration m))"
      by (simp add: ws(3) blocked_commits)
    moreover have "total_hours s' d =
             total_hours s d + of_nat (length ws) * (of_int (m_duration m) * (1/2))"
      by (simp add: ws(3) total_hours_commits)
    moreover have "meeting_hours s' d =
             meeting_hours s d + of_nat (length ws) * (of_int (m_duration m) * (1/2))"
      by (simp add: ws(3) meeting_hours_commits)
    ultimately show ?thesis using ws by blast
  qed
  moreover have "s0' = s0" if "add_meeting rnd s0 m0 = Returns False s0'"
    using add_meeting_False[OF that] .
  ultimately show ?thesis by blast
qed

theorem commit_loop_failure_witness:
  "\<exists>s' ws. place_occurrences 4 one_week_taken (example_meeting ''weekly'' 1 ''Monday'' ''09:00'')
        [1, 2, 3, 0] (\<lambda>_. False) 0 0 = Returns False s'
     \<and> length (schedule one_week_taken) = 1 \<and> length (schedule s') = 4
     \<and> length ws < 4
     \<and> s' = commits (example_meeting ''weekly'' 1 ''Monday'' ''09:00'') 0 0 ws one_week_taken
     \<and> add_meeting (\<lambda>_. 0) one_week_taken (example_meeting ''weekly'' 1 ''Monday'' ''09:00'')
         = Returns False one_week_taken"
proof -
  let ?m = "example_meeting ''weekly'' 1 ''Monday'' ''09:00''"
  let ?r = "place_occurrences 4 one_week_taken ?m [1, 2, 3, 0] (\<lambda>_. False) 0 0"
  let ?a = "add_meeting (\<lambda>_. 0) one_week_taken ?m"
  have ev: "rejected ?r \<and> length (schedule one_week_taken) = 1
      \<and> length (schedule (then_state ?r)) = 4 \<and> rejected ?a"
    by code_simp
  then have r: "?r = Returns False (then_state ?r)" and a: "?a = Returns False (then_state ?a)"
    by (simp_all add: rejected_Returns)
  from commit_loop_failure[of 4 one_week_taken ?m "[1, 2, 3, 0]" "\<lambda>_. False" 0 0
      "then_state ?r" "\<lambda>_. 0" one_week_taken ?m "then_state ?a"] r a
  obtain ws where "length ws < 4" "then_state ?r = commits ?m 0 0 ws one_week_taken"
    "then_state ?a = one_week_taken"
    by auto
  with r a ev show ?thesis by metis
qed

section \<open>Frequencies other than weekly and fortnightly\<close>

lemma search_other_frequency:
  assumes "m_frequency m \<noteq> ''weekly''" "m_frequency m \<noteq> ''fortnightly''"
  shows "search s (m\<lparr>m_frequency := ''monthly''\<rparr>) = search s m"
proof -
  let ?m' = "m\<lparr>m_frequency := ''monthly''\<rparr>"
  have idx: "fixed_day_idx ?m' = fixed_day_idx m" "fixed_time_idx ?m' = fixed_time_idx m"
    by (simp_all add: fixed_day_idx_def fixed_time_idx_def)
  have ph: "preferred_hours ?m' = preferred_hours m" by simp
  have f: "(m_frequency ?m' = ''fortnightly'') = False"
    "(m_frequency m = ''fortnightly'') = False"
    using assms by simp_all
  have occ: "occurrences_of (m_frequency ?m') = occurrences_of (m_frequency m)"
    using assms by (simp add: occurrences_of_def)
  have q: "qualifies s ?m' p d t = qualifies s m p d t" for p d t
    unfolding qualifies_def f occ by simp
  have sm: "search_metric s ?m' d = search_metric s m d" for d
    unfolding search_metric_def projected_hours_def f by simp
  have ti: "time_idx_of ?m' t = time_idx_of m t" for t
    unfolding time_idx_of_def idx ph ..
  have "try_time s ?m' p d t b = try_time s m p d t b" for p d t b
    by (cases b) (simp only: try_time_step q sm ti)
  then have tt: "try_time s ?m' p d = try_time s m p d" for p d
    by (intro ext)
  have "try_day s ?m' order p d b = try_day s m order p d b" for order p d b
    unfolding try_day_def idx ph tt ..
  then have td: "try_day s ?m' order p = try_day s m order p" for order p
    by (intro ext)
  show ?thesis
    unfolding search_def idx td f ..
qed

text \<open>
  C10. A request whose frequency string is neither \<open>weekly\<close> nor \<open>fortnightly\<close>, whatever
  the string is, asks for one occurrence, as \<open>monthly\<close> and \<open>third_week\<close> do, and is
  never rejected for its frequency. The search gives what it gives for the same request
  with the frequency \<open>monthly\<close>. If the search chooses nothing the call returns false
  with the scheduler unchanged; otherwise the call commits exactly one occurrence, in a
  valid week of 0..3 (unless the schedule array is full), and the same request with the
  frequency \<open>monthly\<close> commits the same week.
\<close>

theorem other_frequency_single_occurrence:
  assumes "m_frequency m \<noteq> ''weekly''" "m_frequency m \<noteq> ''fortnightly''"
  shows "occurrences_of (m_frequency m) = 1
    \<and> occurrences_of ''monthly'' = 1 \<and> occurrences_of ''third_week'' = 1
    \<and> search s (m\<lparr>m_frequency := ''monthly''\<rparr>) = search s m
    \<and> (case search s m of (mh, cd, ct) \<Rightarrow>
         if cd = -1 \<or> ct = -1
         then add_meeting rnd s m = Returns False s
         else (\<exists>week. week \<in> {0, 1, 2, 3} \<and> is_valid_slot s week cd ct (m_duration m)
                 \<and> add_meeting rnd s m =
                     (if schedule_count s \<ge> MAX_MEETINGS * MAX_WEEKS then OutOfBounds
                      else Returns True (commit_entry s m week cd ct))
                 \<and> add_meeting rnd s (m\<lparr>m_frequency := ''monthly''\<rparr>) =
                     (if schedule_count s \<ge> MAX_MEETINGS * MAX_WEEKS then OutOfBounds
                      else Returns True
                        (commit_entry s (m\<lparr>m_frequency := ''monthly''\<rparr>) week cd ct))))"
proof -
  let ?m' = "m\<lparr>m_frequency := ''monthly''\<rparr>"
  have occ: "occurrences_of (m_frequency m) = 1" "occurrences_of ''monthly'' = 1"
    "occurrences_of ''third_week'' = 1"
    using assms by (simp_all add: occurrences_of_def)
  note sm = search_other_frequency[OF assms, of s]
  obtain mh cd ct where sr: "search s m = (mh, cd, ct)" by (cases "search s m")
  have body: "if cd = -1 \<or> ct = -1
         then add_meeting rnd s m = Returns False s
         else (\<exists>week. week \<in> {0, 1, 2, 3} \<and> is_valid_slot s week cd ct (m_duration m)
                 \<and> add_meeting rnd s m =
                     (if schedule_count s \<ge> MAX_MEETINGS * MAX_WEEKS then OutOfBounds
                      else Returns True (commit_entry s m week cd ct))
                 \<and> add_meeting rnd s ?m' =
                     (if schedule_count s \<ge> MAX_MEETINGS * MAX_WEEKS then OutOfBounds
                      else Returns True (commit_entry s ?m' week cd ct)))"
  proof (cases "cd = -1 \<or> ct = -1")
    case True
    with sr show ?thesis by (auto simp: add_meeting_def)
  next
    case False
    let ?fw = "find_week s (\<lambda>_. False) (shuffle_weeks rnd) cd ct (m_duration m)"
    have am: "add_meeting rnd s m =
        (case ?fw of None \<Rightarrow> Returns False s
         | Some week \<Rightarrow> if schedule_count s \<ge> MAX_MEETINGS * MAX_WEEKS then OutOfBounds
                        else Returns True (commit_entry s m week cd ct))"
      using sr False assms occ by (simp add: add_meeting_def split: option.splits)
    have am': "add_meeting rnd s ?m' =
        (case ?fw of None \<Rightarrow> Returns False s
         | Some week \<Rightarrow> if schedule_count s \<ge> MAX_MEETINGS * MAX_WEEKS then OutOfBounds
                        else Returns True (commit_entry s ?m' week cd ct))"
      using sr sm False occ by (simp add: add_meeting_def split: option.splits)
    show ?thesis
    proof (cases ?fw)
      case None
      with am have "add_meeting rnd s m = Returns False s" by simp
      from add_meeting_False_unchosen[OF this sr] False show ?thesis by simp
    next
      case (Some week)
      from find_week_Some[OF Some] shuffle_weeks_perm[of rnd] have
        "week \<in> {0, 1, 2, 3}" "is_valid_slot s week cd ct (m_duration m)"
        by auto
      with False am am' Some show ?thesis
        by (intro iffD2[OF if_not_P] exI[of _ week]) simp_all
    qed
  qed
  from occ sm sr body show ?thesis by simp
qed

theorem other_frequency_single_occurrence_witness:
  "\<exists>s'. add_meeting (\<lambda>_. 0) init_scheduler (example_meeting ''daily'' 2 ''Monday'' ''10:00'')
          = Returns True s'
     \<and> map e_frequency (schedule s') = [''daily'']
     \<and> map e_week (schedule s') =
         map e_week (schedule (then_state (add_meeting (\<lambda>_. 0) init_scheduler
            (example_meeting ''monthly'' 2 ''Monday'' ''10:00''))))"
proof -
  let ?m = "example_meeting ''daily'' 2 ''Monday'' ''10:00''"
  let ?m' = "example_meeting ''monthly'' 2 ''Monday'' ''10:00''"
  have m': "?m\<lparr>m_frequency := ''monthly''\<rparr> = ?m'" by (simp add: example_meeting_def)
  have f: "m_frequency ?m \<noteq> ''weekly''" "m_frequency ?m \<noteq> ''fortnightly''"
    by (simp_all add: example_meeting_def)
  have sr: "search init_scheduler ?m = (1, 0, 2)" by code_simp
  have cap: "\<not> schedule_count init_scheduler \<ge> MAX_MEETINGS * MAX_WEEKS"
    by (simp add: schedule_count_def init_scheduler_def MAX_MEETINGS_def MAX_WEEKS_def)
  from other_frequency_single_occurrence[OF f, of init_scheduler "\<lambda>_. 0"] sr cap m'
  obtain week where
    a: "add_meeting (\<lambda>_. 0) init_scheduler ?m = Returns True (commit_entry init_scheduler ?m week 0 2)"
    and b: "add_meeting (\<lambda>_. 0) init_scheduler ?m'
              = Returns True (commit_entry init_scheduler ?m' week 0 2)"
    by auto
  have "map e_frequency (schedule (commit_entry init_scheduler ?m week 0 2)) = [''daily'']"
    "map e_week (schedule (commit_entry init_scheduler ?m week 0 2)) =
     map e_week (schedule (commit_entry init_scheduler ?m' week 0 2))"
    by (simp_all add: commit_entry_def entry_of_def init_scheduler_def example_meeting_def)
  with a b show ?thesis by simp
qed

section \<open>The selection rule\<close>

subsection \<open>The order of the days\<close>

lemma sort_days_steps:
  "sort_days h =
     bubble_step h 0 (bubble_step h 1 (bubble_step h 0
       (bubble_step h 2 (bubble_step h 1 (bubble_step h 0 [0, 1, 2, 3])))))"
proof -
  have u: "[0 ..< nat MAX_DAYS - 1] = [0, 1, 2]" "nat MAX_DAYS - 0 - 1 = 3"
    "nat MAX_DAYS - 1 - 1 = 2" "nat MAX_DAYS - 2 - 1 = 1"
    "[0 ..< 3] = [0, 1, 2]" "[0 ..< 2] = [0, 1]" "[0 ..< 1] = [0::nat]"
    by (simp_all add: MAX_DAYS_def upt_rec)
  show ?thesis
    unfolding sort_days_def u fold_simps u id_apply comp_apply ..
qed

lemma bubble_sorts_four:
  fixes h :: "int \<Rightarrow> rat"
  shows "bubble_step h 0 (bubble_step h 1 (bubble_step h 0
       (bubble_step h 2 (bubble_step h 1 (bubble_step h 0 [a, b, c, d])))))
     = sort_key h [a, b, c, d]"
  by (simp add: bubble_step_def)

lemma sort_days_sort_key: "sort_days h = sort_key h [0, 1, 2, 3]"
  unfolding sort_days_steps by (rule bubble_sorts_four)

lemma arg_min_list_snoc:
  "xs \<noteq> [] \<Longrightarrow>
   arg_min_list f (xs @ [y]) = (if f (arg_min_list f xs) \<le> f y then arg_min_list f xs else y)"
  by (induction f xs rule: arg_min_list.induct) (auto simp: Let_def)

lemma arg_min_list_same_order:
  "xs \<noteq> [] \<Longrightarrow> (\<And>x y. f x \<le> f y \<longleftrightarrow> g x \<le> g y) \<Longrightarrow>
   arg_min_list f xs = arg_min_list g xs"
  by (induction f xs rule: arg_min_list.induct) (auto simp: Let_def)

subsection \<open>The search as one pass over a list of candidates\<close>

lemma try_time_candidate:
  "try_time s m p d t b = try_candidate s m (p, d, time_idx_of m t) b"
  by (cases b) (simp add: try_time_step try_candidate_def)

lemma fold_try_time:
  "fold (try_time s m p d) ts b = fold (try_candidate s m) (map (\<lambda>t. (p, d, time_idx_of m t)) ts) b"
  by (induction ts arbitrary: b) (simp_all add: try_time_candidate)

lemma pref_end_step: "ph i \<ge> 0 \<Longrightarrow> i < 8 \<Longrightarrow> pref_end ph i = pref_end ph (i + 1)"
  by (subst pref_end.simps) simp

lemma pref_end_stop: "\<not> (ph i \<ge> 0 \<and> i < 8) \<Longrightarrow> pref_end ph i = i"
  by (subst pref_end.simps) auto

lemma pref_end_ge: "i \<le> pref_end ph i"
proof (induction ph i rule: pref_end.induct)
  case (1 ph i)
  show ?case
  proof (cases "ph i \<ge> 0 \<and> i < 8")
    case True
    with 1 show ?thesis by (simp add: pref_end_step)
  next
    case False
    from pref_end_stop[of ph i] False show ?thesis by simp
  qed
qed

lemma pref_end_le: "i \<le> 8 \<Longrightarrow> pref_end ph i \<le> 8"
proof (induction ph i rule: pref_end.induct)
  case (1 ph i)
  show ?case
  proof (cases "ph i \<ge> 0 \<and> i < 8")
    case True
    with 1 show ?thesis by (simp add: pref_end_step)
  next
    case False
    from pref_end_stop[of ph i] False 1 show ?thesis by simp
  qed
qed

lemma pref_end_list:
  "i \<le> 8 \<Longrightarrow>
   map ph [i .. pref_end ph i - 1] = takeWhile (\<lambda>h. 0 \<le> h) (map ph [i .. 7])"
proof (induction ph i rule: pref_end.induct)
  case (1 ph i)
  show ?case
  proof (cases "ph i \<ge> 0 \<and> i < 8")
    case True
    then have e: "pref_end ph i = pref_end ph (i + 1)" by (simp add: pref_end_step)
    from pref_end_ge[of "i + 1" ph] have "i \<le> pref_end ph (i + 1) - 1" by simp
    then have l: "[i .. pref_end ph (i + 1) - 1] = i # [i + 1 .. pref_end ph (i + 1) - 1]"
      by (simp add: upto_rec1)
    from True have r: "[i .. 7] = i # [i + 1 .. 7]" by (simp add: upto_rec1)
    from True 1 have "map ph [i + 1 .. pref_end ph (i + 1) - 1]
        = takeWhile (\<lambda>h. 0 \<le> h) (map ph [i + 1 .. 7])" by simp
    with True show ?thesis unfolding e l r by simp
  next
    case False
    then have e: "pref_end ph i = i" by (rule pref_end_stop)
    show ?thesis
    proof (cases "i < 8")
      case True
      with False have "\<not> ph i \<ge> 0" by simp
      moreover from True have "[i .. 7] = i # [i + 1 .. 7]" by (simp add: upto_rec1)
      ultimately show ?thesis unfolding e by simp
    next
      case False
      with 1 have "i = 8" by simp
      then show ?thesis unfolding e by simp
    qed
  qed
qed

lemma code_times:
  "map (time_idx_of m)
     [(if fixed_time_idx m \<ge> 0 then fixed_time_idx m else 0) ..
      min (if preferred_hours m 0 \<ge> 0 \<and> fixed_time_idx m < 0
           then pref_end (preferred_hours m) 0
           else (if fixed_time_idx m \<ge> 0 then fixed_time_idx m + 1 else MAX_SLOTS))
          MAX_SLOTS - 1]
   = candidate_times m"
proof (cases "fixed_time_idx m \<ge> 0")
  case True
  with find_slot_index_range[of "fixed_time m"] have "fixed_time_idx m < 14"
    by (auto simp: fixed_time_idx_def split: if_splits)
  with True show ?thesis
    by (simp add: candidate_times_def time_idx_of_def MAX_SLOTS_def min_def)
next
  case False
  show ?thesis
  proof (cases "preferred_hours m 0 \<ge> 0")
    case True
    have "pref_end (preferred_hours m) 0 \<le> 8" by (rule pref_end_le) simp
    then have "min (pref_end (preferred_hours m) 0) MAX_SLOTS = pref_end (preferred_hours m) 0"
      by (simp add: MAX_SLOTS_def)
    moreover have "time_idx_of m = preferred_hours m"
      using True False by (intro ext) (simp add: time_idx_of_def)
    ultimately show ?thesis
      using True False pref_end_list[of 0 "preferred_hours m"]
      by (simp add: candidate_times_def)
  next
    case nopref: False
    have "time_idx_of m = (\<lambda>t. t)"
      using nopref False by (intro ext) (simp add: time_idx_of_def)
    with nopref False show ?thesis
      by (simp add: candidate_times_def MAX_SLOTS_def)
  qed
qed

lemma try_day_candidates:
  "try_day s m order p d b =
     fold (try_candidate s m)
       (let day_idx = (if fixed_day_idx m \<ge> 0 then fixed_day_idx m else order ! nat d)
        in if over_cap s day_idx then []
           else map (\<lambda>t. (p, day_idx, t)) (candidate_times m)) b"
proof -
  let ?d = "if fixed_day_idx m \<ge> 0 then fixed_day_idx m else order ! nat d"
  show ?thesis
  proof (cases "over_cap s ?d")
    case True
    then show ?thesis by (simp add: try_day_def Let_def over_cap_def)
  next
    case False
    have "map (\<lambda>t. (p, ?d, time_idx_of m t)) ts
        = map (\<lambda>t. (p, ?d, t)) (map (time_idx_of m) ts)" for ts
      by simp
    with False show ?thesis
      unfolding try_day_def Let_def fold_try_time over_cap_def
      by (simp only: code_times if_False)
  qed
qed

lemma fold_concat_map:
  "fold f (concat (map g xs)) b = fold (\<lambda>x. fold f (g x)) xs b"
  by (induction xs arbitrary: b) simp_all

lemma nth_four: "length xs = 4 \<Longrightarrow> map (\<lambda>d. xs ! nat d) [0, 1, 2, 3] = xs"
  using length_four[of xs] by auto

lemma code_days:
  "map (\<lambda>d. if fixed_day_idx m \<ge> 0 then fixed_day_idx m
             else sort_days (total_hours s) ! nat d)
     [(if fixed_day_idx m \<ge> 0 then fixed_day_idx m else 0) ..
      (if fixed_day_idx m \<ge> 0 then fixed_day_idx m + 1 else MAX_DAYS) - 1]
   = candidate_days s m"
proof (cases "fixed_day_idx m \<ge> 0")
  case True
  then show ?thesis by (simp add: candidate_days_def)
next
  case False
  have "length (sort_key (total_hours s) [0, 1, 2, 3 :: int]) = 4" by (simp only: length_sort) simp
  from nth_four[OF this] False show ?thesis
    by (simp add: candidate_days_def sort_days_sort_key MAX_DAYS_def upto_slots)
qed

lemma search_pass:
  "fold (try_day s m (sort_days (total_hours s)) p)
     [(if fixed_day_idx m \<ge> 0 then fixed_day_idx m else 0) ..
      (if fixed_day_idx m \<ge> 0 then fixed_day_idx m + 1 else MAX_DAYS) - 1] b
   = fold (try_candidate s m) (map (\<lambda>(d, t). (p, d, t)) (candidates s m)) b"
proof -
  let ?ds = "[(if fixed_day_idx m \<ge> 0 then fixed_day_idx m else 0) ..
      (if fixed_day_idx m \<ge> 0 then fixed_day_idx m + 1 else MAX_DAYS) - 1]"
  let ?day = "\<lambda>d. if fixed_day_idx m \<ge> 0 then fixed_day_idx m
             else sort_days (total_hours s) ! nat d"
  let ?g = "\<lambda>d. if over_cap s d then [] else map (\<lambda>t. (p, d, t)) (candidate_times m)"
  have "fold (try_day s m (sort_days (total_hours s)) p) ?ds b
      = fold (\<lambda>d. fold (try_candidate s m) (?g (?day d))) ?ds b"
    by (rule arg_cong[where f = "\<lambda>f. fold f ?ds b"])
       (intro ext, simp add: try_day_candidates Let_def)
  also have "\<dots> = fold (\<lambda>d. fold (try_candidate s m) (?g d)) (map ?day ?ds) b"
    by (simp add: fold_map comp_def)
  also have "\<dots> = fold (try_candidate s m) (concat (map ?g (candidate_days s m))) b"
    unfolding code_days by (simp only: fold_concat_map)
  also have "concat (map ?g (candidate_days s m)) = map (\<lambda>(d, t). (p, d, t)) (candidates s m)"
    by (simp add: candidates_def map_concat comp_def if_distrib[where f = "map _"] cong: if_cong)
  finally show ?thesis .
qed

lemma search_candidates:
  "search s m = fold (try_candidate s m) (evaluated s m) (1000000000, -1, -1)"
proof -
  have "[0 .. (if m_frequency m = ''fortnightly'' then 2 else 1) - 1] = passes m"
    by (simp add: passes_def upto_slots)
  then show ?thesis
    unfolding search_def Let_def search_pass evaluated_def
    by (simp only: fold_concat_map)
qed

subsection \<open>The first minimum\<close>

lemma try_candidate_apply:
  "try_candidate s m (p, d, t) (mh, cd, ct) =
     (if qualifies s m p d t \<and> search_metric s m d < mh
      then (search_metric s m d, d, t) else (mh, cd, ct))"
  by (simp add: try_candidate_def)

lemma fold_try_candidate:
  assumes "\<forall>c \<in> set cs. search_metric s m (fst (snd c)) < M"
  shows "fold (try_candidate s m) cs (M, a, b) =
     (case filter (\<lambda>(p, d, t). qualifies s m p d t) cs of
        [] \<Rightarrow> (M, a, b)
      | q # qs \<Rightarrow>
          (case arg_min_list (\<lambda>c. search_metric s m (fst (snd c))) (q # qs) of
             (p, d, t) \<Rightarrow> (search_metric s m d, d, t)))"
  using assms
proof (induction cs rule: rev_induct)
  case Nil
  then show ?case by simp
next
  case (snoc c cs)
  let ?ok = "\<lambda>(p, d, t). qualifies s m p d t"
  let ?key = "\<lambda>c. search_metric s m (fst (snd c))"
  obtain p d t where c: "c = (p, d, t)" by (cases c)
  from snoc.prems have bound: "?key c < M" and rest: "\<forall>c \<in> set cs. ?key c < M" by simp_all
  note IH = snoc.IH[OF rest]
  show ?case
  proof (cases "filter ?ok cs")
    case Nil
    with IH have "fold (try_candidate s m) cs (M, a, b) = (M, a, b)" by simp
    with Nil bound show ?thesis
      by (simp add: c try_candidate_apply)
  next
    case (Cons q qs)
    define best where "best = arg_min_list ?key (q # qs)"
    obtain p' d' t' where b: "best = (p', d', t')" by (cases best)
    from IH Cons b have f: "fold (try_candidate s m) cs (M, a, b) = (search_metric s m d', d', t')"
      by (simp add: best_def)
    show ?thesis
    proof (cases "qualifies s m p d t")
      case False
      with Cons f b show ?thesis
        by (simp add: c try_candidate_apply best_def)
    next
      case True
      have "arg_min_list ?key ((q # qs) @ [c]) = (if ?key best \<le> ?key c then best else c)"
        unfolding best_def by (rule arg_min_list_snoc) simp
      with True Cons f b show ?thesis
        by (auto simp: c try_candidate_apply not_le)
    qed
  qed
qed

lemma candidates_days: "(d, t) \<in> set (candidates s m) \<Longrightarrow> d \<in> set (candidate_days s m)"
  by (auto simp: candidates_def split: if_splits)

lemma evaluated_days: "(p, d, t) \<in> set (evaluated s m) \<Longrightarrow> d \<in> set (candidate_days s m)"
  by (auto simp: evaluated_def dest: candidates_days)

lemma search_metric_bound:
  "projected_hours s m d < 1000000000 \<Longrightarrow> search_metric s m d < 1000000000"
  by (simp add: search_metric_def)

lemma search_metric_order:
  "search_metric s m d \<le> search_metric s m d' \<longleftrightarrow> projected_hours s m d \<le> projected_hours s m d'"
  by (simp add: search_metric_def divide_le_cancel)

lemma arg_min_list_map:
  "xs \<noteq> [] \<Longrightarrow> arg_min_list f (map g xs) = g (arg_min_list (\<lambda>x. f (g x)) xs)"
  by (induction "\<lambda>x. f (g x)" xs rule: arg_min_list.induct) (auto simp: Let_def)

lemma search_result:
  assumes "\<forall>d \<in> set (candidate_days s m). projected_hours s m d < 1000000000"
  shows "search s m =
     (case qualifying s m of
        [] \<Rightarrow> (1000000000, -1, -1)
      | q # qs \<Rightarrow>
          (case arg_min_list (\<lambda>(p, d, t). projected_hours s m d) (q # qs) of
             (p, d, t) \<Rightarrow> (search_metric s m d, d, t)))"
proof -
  have bound: "\<forall>c \<in> set (evaluated s m). search_metric s m (fst (snd c)) < 1000000000"
    using assms by (auto dest!: evaluated_days intro: search_metric_bound)
  have key: "arg_min_list (\<lambda>c. search_metric s m (fst (snd c))) (q # qs)
      = arg_min_list (\<lambda>(p, d, t). projected_hours s m d) (q # qs)" for q qs
    by (rule arg_min_list_same_order) (auto simp: search_metric_order)
  show ?thesis
    unfolding search_candidates fold_try_candidate[OF bound] qualifying_def
    by (simp add: key split: list.splits)
qed

lemma qualifying_single_pass:
  assumes "m_frequency m \<noteq> ''fortnightly''" "qualifying s m \<noteq> []"
  shows "arg_min_list (\<lambda>(p, d, t). projected_hours s m d) (qualifying s m)
     = (0, claimed_choice s m)"
proof -
  let ?g = "\<lambda>(d, t). (0 :: int, d, t)"
  let ?qs = "filter (\<lambda>(d, t). qualifies s m 0 d t) (candidates s m)"
  from assms(1) have q: "qualifying s m = map ?g ?qs"
    by (simp add: qualifying_def evaluated_def passes_def filter_map comp_def split_def)
  with assms(2) have ne: "?qs \<noteq> []" by simp
  from assms(1) have c: "claimed_choice s m = arg_min_list (\<lambda>(d, t). projected_hours s m d) ?qs"
    by (simp add: claimed_choice_def passes_def)
  have "arg_min_list (\<lambda>(p, d, t). projected_hours s m d) (map ?g ?qs)
      = ?g (arg_min_list (\<lambda>x. (\<lambda>(p, d, t). projected_hours s m d) (?g x)) ?qs)"
    by (rule arg_min_list_map[OF ne])
  also have "(\<lambda>x. (\<lambda>(p, d, t). projected_hours s m d) (?g x)) = (\<lambda>(d, t). projected_hours s m d)"
    by (auto simp: fun_eq_iff)
  finally show ?thesis unfolding q c by (simp add: split_def)
qed

text \<open>
  C5, as stated, fails for a fortnightly request. In the scheduler with one meeting in
  week 0 on Monday at 09:00, take a fortnightly 30-minute request fixed on Monday with
  no fixed or preferred time. Monday 09:00 reaches the two occurrences in the pairing
  (1, 3) and Monday 09:30 in the pairing (0, 2); both have the same projected hours, and
  09:00 comes first in day-then-time order, so the rule as stated selects Monday 09:00.
  The search selects Monday 09:30: it runs through all days and times for the pairing
  (0, 2) before it looks at the pairing (1, 3).
\<close>

theorem fortnightly_tie_break:
  "snd (search one_week_taken (example_meeting ''fortnightly'' 1 ''Monday'' [])) = (0, 1)
   \<and> claimed_choice one_week_taken (example_meeting ''fortnightly'' 1 ''Monday'' []) = (0, 0)
   \<and> qualifies one_week_taken (example_meeting ''fortnightly'' 1 ''Monday'' []) 1 0 0
   \<and> qualifies one_week_taken (example_meeting ''fortnightly'' 1 ''Monday'' []) 0 0 1
   \<and> take 2 (candidates one_week_taken (example_meeting ''fortnightly'' 1 ''Monday'' []))
       = [(0, 0), (0, 1)]"
  by code_simp

text \<open>
  C5, amended. The days are iterated in the order of the bubble sort, which is a
  permutation of the four days sorted ascending by total hours, days of equal hours in
  their original order (or the fixed day alone), days over the cap of meeting hours left
  out. Provided every candidate
  day's projected hours are below the initial bound 1e9: if no candidate qualifies, the
  search chooses nothing; otherwise it chooses the qualifying candidate with the least
  projected hours (the day's total hours plus the meeting's duration times 0.5), and
  among equals the one evaluated first, where the evaluation order is day-then-time
  within a pass and, for a fortnightly request, the pass of the pairing (0, 2) before
  the pass of the pairing (1, 3), a candidate counting in the pass where its pairing is
  valid. For a request that is not fortnightly there is one pass, and the choice is the
  one the rule as stated makes.
\<close>

theorem search_first_minimum:
  assumes "\<forall>d \<in> set (candidate_days s m). projected_hours s m d < 1000000000"
  shows "sort_days (total_hours s) = sort_key (total_hours s) [0, 1, 2, 3]
    \<and> sorted (map (total_hours s) (sort_days (total_hours s)))
    \<and> distinct (sort_days (total_hours s)) \<and> set (sort_days (total_hours s)) = {0, 1, 2, 3}
    \<and> (\<forall>k. filter (\<lambda>d. total_hours s d = k) (sort_days (total_hours s))
            = filter (\<lambda>d. total_hours s d = k) [0, 1, 2, 3])
    \<and> (qualifying s m = [] \<longrightarrow> search s m = (1000000000, -1, -1))
    \<and> (qualifying s m \<noteq> [] \<longrightarrow>
         (case arg_min_list (\<lambda>(p, d, t). projected_hours s m d) (qualifying s m) of
            (p, d, t) \<Rightarrow> snd (search s m) = (d, t)))
    \<and> (m_frequency m \<noteq> ''fortnightly'' \<longrightarrow> qualifying s m \<noteq> [] \<longrightarrow>
         snd (search s m) = claimed_choice s m)"
proof -
  note r = search_result[OF assms]
  have 1: "search s m = (1000000000, -1, -1)" if "qualifying s m = []"
    using r that by simp
  have 2: "case arg_min_list (\<lambda>(p, d, t). projected_hours s m d) (qualifying s m) of
            (p, d, t) \<Rightarrow> snd (search s m) = (d, t)" if "qualifying s m \<noteq> []"
    using r that by (cases "qualifying s m") (auto split: prod.splits)
  have 3: "snd (search s m) = claimed_choice s m"
    if "m_frequency m \<noteq> ''fortnightly''" "qualifying s m \<noteq> []"
    using 2[OF that(2)] qualifying_single_pass[OF that] by simp
  have 4: "sorted (map (total_hours s) (sort_days (total_hours s)))"
    "distinct (sort_days (total_hours s))" "set (sort_days (total_hours s)) = {0, 1, 2, 3}"
    unfolding sort_days_sort_key by (simp_all only: sorted_sort_key distinct_sort set_sort) simp_all
  have 5: "\<forall>k. filter (\<lambda>d. total_hours s d = k) (sort_days (total_hours s))
            = filter (\<lambda>d. total_hours s d = k) [0, 1, 2, 3]"
    unfolding sort_days_sort_key by (simp only: sort_key_stable) simp
  from sort_days_sort_key 1 2 3 4 5 show ?thesis by blast
qed

theorem search_first_minimum_witness:
  "snd (search one_week_taken (example_meeting ''fortnightly'' 1 ''Monday'' [])) = (0, 1)
   \<and> arg_min_list
        (\<lambda>(p, d, t). projected_hours one_week_taken
                        (example_meeting ''fortnightly'' 1 ''Monday'' []) d)
        (qualifying one_week_taken (example_meeting ''fortnightly'' 1 ''Monday'' [])) = (0, 0, 1)
   \<and> snd (search init_scheduler (example_meeting ''weekly'' 1 [] [])) = (0, 0)
   \<and> claimed_choice init_scheduler (example_meeting ''weekly'' 1 [] []) = (0, 0)
   \<and> qualifying monday_loaded (example_meeting ''monthly'' 1 ''Monday'' ''15:00'') = []
   \<and> search monday_loaded (example_meeting ''monthly'' 1 ''Monday'' ''15:00'')
       = (1000000000, -1, -1)"
proof -
  let ?f = "example_meeting ''fortnightly'' 1 ''Monday'' []"
  let ?w = "example_meeting ''weekly'' 1 [] []"
  let ?o = "example_meeting ''monthly'' 1 ''Monday'' ''15:00''"
  have hf: "\<forall>d \<in> set (candidate_days one_week_taken ?f).
      projected_hours one_week_taken ?f d < 1000000000" by code_simp
  have hw: "\<forall>d \<in> set (candidate_days init_scheduler ?w).
      projected_hours init_scheduler ?w d < 1000000000" by code_simp
  have ho: "\<forall>d \<in> set (candidate_days monday_loaded ?o).
      projected_hours monday_loaded ?o d < 1000000000" by code_simp
  have ef: "qualifying one_week_taken ?f \<noteq> []
      \<and> arg_min_list (\<lambda>(p, d, t). projected_hours one_week_taken ?f d)
          (qualifying one_week_taken ?f) = (0, 0, 1)" by code_simp
  have ew: "qualifying init_scheduler ?w \<noteq> [] \<and> m_frequency ?w \<noteq> ''fortnightly''
      \<and> claimed_choice init_scheduler ?w = (0, 0)" by code_simp
  have eo: "qualifying monday_loaded ?o = []" by code_simp
  from search_first_minimum[OF hf] ef
  have 1: "snd (search one_week_taken ?f) = (0, 1)" by simp
  from search_first_minimum[OF hw] ew
  have 2: "snd (search init_scheduler ?w) = (0, 0)" by simp
  from search_first_minimum[OF ho] eo
  have 3: "search monday_loaded ?o = (1000000000, -1, -1)" by simp
  from 1 2 3 ef ew eo show ?thesis by simp
qed

end
